theory Spec2Isabelle
  imports Complex_Main "HOL-Library.Word" "HOL-Library.Sublist"
begin

section \<open>Wine label cropper: the detection-to-crop pipeline of \<^verbatim>\<open>server/wine.ts\<close>\<close>

text \<open>
  The development embeds the five functions of the server module:
  \<^verbatim>\<open>base64ToBuffer\<close>, \<^verbatim>\<open>getImageDimensions\<close>, \<^verbatim>\<open>detectWineLabels\<close>,
  \<^verbatim>\<open>cropImageSharp\<close> and \<^verbatim>\<open>processWineImage\<close>.

  Conventions of the embedding.
  \<^item> A JavaScript \<^verbatim>\<open>number\<close> that holds a coordinate is an exact \<^typ>\<open>real\<close>; a number
    that is integral by construction (a result of \<^verbatim>\<open>Math.floor\<close> or \<^verbatim>\<open>Math.ceil\<close>, a
    pixel count) is an \<^typ>\<open>int\<close>. The rounding error of IEEE doubles, \<^verbatim>\<open>NaN\<close> and
    the infinities are outside the model.
  \<^item> A thrown exception is the \<open>Inl\<close> branch of a sum.
\<close>

subsection \<open>Data model\<close>

text \<open>\<^verbatim>\<open>interface BoundingBox { ymin; xmin; ymax; xmax }\<close>, all of type \<^verbatim>\<open>number\<close>.\<close>

record BoundingBox =
  ymin :: real
  xmin :: real
  ymax :: real
  xmax :: real

text \<open>The \<^verbatim>\<open>{ width, height }\<close> object returned by \<^verbatim>\<open>getImageDimensions\<close>.\<close>

record imageDimensions =
  width :: int
  height :: int

text \<open>
  The argument of sharp's \<^verbatim>\<open>extract\<close>: \<^verbatim>\<open>{ left, top, width, height }\<close>. The fields
  carry the suffix \<open>_r\<close> since \<open>top\<close>, \<open>width\<close> and \<open>height\<close> are taken.
\<close>

record region =
  left_r :: int
  top_r :: int
  width_r :: int
  height_r :: int

subsection \<open>The coordinate mapping of \<^verbatim>\<open>cropImageSharp\<close>\<close>

text \<open>
  Each \<^verbatim>\<open>const\<close> of the function body is one definition, in the order of the source.
  \<^verbatim>\<open>actualWidth\<close> and \<^verbatim>\<open>actualHeight\<close> are the two fields of the dimensions.
\<close>

definition scaleX :: "imageDimensions \<Rightarrow> real" where
  "scaleX d = real_of_int (width d) / 1000"

definition scaleY :: "imageDimensions \<Rightarrow> real" where
  "scaleY d = real_of_int (height d) / 1000"

definition pixelX :: "BoundingBox \<Rightarrow> imageDimensions \<Rightarrow> int" where
  "pixelX b d = \<lfloor>xmin b * scaleX d\<rfloor>"

definition pixelY :: "BoundingBox \<Rightarrow> imageDimensions \<Rightarrow> int" where
  "pixelY b d = \<lfloor>ymin b * scaleY d\<rfloor>"

definition pixelW :: "BoundingBox \<Rightarrow> imageDimensions \<Rightarrow> int" where
  "pixelW b d = \<lceil>(xmax b - xmin b) * scaleX d\<rceil>"

definition pixelH :: "BoundingBox \<Rightarrow> imageDimensions \<Rightarrow> int" where
  "pixelH b d = \<lceil>(ymax b - ymin b) * scaleY d\<rceil>"

definition padW :: "BoundingBox \<Rightarrow> imageDimensions \<Rightarrow> int" where
  "padW b d = max 1 \<lfloor>real_of_int (pixelW b d) * 0.05\<rfloor>"

definition padH :: "BoundingBox \<Rightarrow> imageDimensions \<Rightarrow> int" where
  "padH b d = max 1 \<lfloor>real_of_int (pixelH b d) * 0.05\<rfloor>"

definition cropX :: "BoundingBox \<Rightarrow> imageDimensions \<Rightarrow> int" where
  "cropX b d = max 0 (pixelX b d - padW b d)"

definition cropY :: "BoundingBox \<Rightarrow> imageDimensions \<Rightarrow> int" where
  "cropY b d = max 0 (pixelY b d - padH b d)"

definition cropW :: "BoundingBox \<Rightarrow> imageDimensions \<Rightarrow> int" where
  "cropW b d = min (width d - cropX b d) (pixelW b d + padW b d * 2)"

definition cropH :: "BoundingBox \<Rightarrow> imageDimensions \<Rightarrow> int" where
  "cropH b d = min (height d - cropY b d) (pixelH b d + padH b d * 2)"

text \<open>The object literal handed to \<^verbatim>\<open>extract\<close>.\<close>

definition cropRegion :: "BoundingBox \<Rightarrow> imageDimensions \<Rightarrow> region" where
  "cropRegion b d =
     \<lparr>left_r = cropX b d, top_r = cropY b d, width_r = cropW b d, height_r = cropH b d\<rparr>"

subsection \<open>Strings and the regular expression of \<^verbatim>\<open>base64ToBuffer\<close>\<close>

text \<open>
  A JavaScript string is a sequence of UTF-16 code units. \<open>str\<close> embeds an ASCII
  literal of the source.
\<close>

type_synonym code_unit = "16 word"
type_synonym js_string = "code_unit list"

definition str :: "string \<Rightarrow> js_string" where
  "str cs = map of_char cs"

text \<open>
  The character classes the pattern uses: \<^verbatim>\<open>\w\<close> is \<^verbatim>\<open>[A-Za-z0-9_]\<close>, and \<^verbatim>\<open>.\<close>
  (without the \<^verbatim>\<open>s\<close> flag) is every code unit but the four line terminators
  LF, CR, U+2028 and U+2029.
\<close>

definition isWordChar :: "code_unit \<Rightarrow> bool" where
  "isWordChar u \<longleftrightarrow>
     (0x30 \<le> u \<and> u \<le> 0x39) \<or> (0x41 \<le> u \<and> u \<le> 0x5A) \<or> u = 0x5F
     \<or> (0x61 \<le> u \<and> u \<le> 0x7A)"

definition isLineTerminator :: "code_unit \<Rightarrow> bool" where
  "isLineTerminator u \<longleftrightarrow> u = 0x0A \<or> u = 0x0D \<or> u = 0x2028 \<or> u = 0x2029"

datatype atom = Lit char | WordChar | AnyChar

fun accepts :: "atom \<Rightarrow> code_unit \<Rightarrow> bool" where
  "accepts (Lit c) u = (u = of_char c)"
| "accepts WordChar u = isWordChar u"
| "accepts AnyChar u = (\<not> isLineTerminator u)"

text \<open>
  The fragment of regular expressions that the pattern is written in: the anchors
  \<^verbatim>\<open>^\<close> and \<^verbatim>\<open>$\<close> (no \<^verbatim>\<open>m\<close> flag: start and end of input), one atom, a greedy
  \<^verbatim>\<open>+\<close> or \<^verbatim>\<open>*\<close> on one atom, and the two parentheses of a capturing group
  (groups are not nested).
\<close>

datatype node = Bol | Eol | One atom | Plus atom | Star atom | GroupOpen | GroupClose

text \<open>
  A greedy quantifier tries the longest repetition first and backtracks one code unit at
  a time, down to its minimum \<open>lo\<close>.
\<close>

primrec greedy :: "(nat \<Rightarrow> 'a option) \<Rightarrow> nat \<Rightarrow> nat \<Rightarrow> 'a option" where
  "greedy f lo 0 = (if lo = 0 then f 0 else None)"
| "greedy f lo (Suc n) =
     (if Suc n < lo then None
      else case f (Suc n) of Some r \<Rightarrow> Some r | None \<Rightarrow> greedy f lo n)"

text \<open>
  The backtracking matcher: \<open>pos\<close> is the index of the next code unit, \<open>s\<close> the
  rest of the input, \<open>opened\<close> the input as it was where the open groups started,
  \<open>caps\<close> the captures of the closed groups. The result is the end index of the match
  and the captures.
\<close>

fun run :: "node list \<Rightarrow> nat \<Rightarrow> js_string \<Rightarrow> js_string list \<Rightarrow> js_string list
              \<Rightarrow> (nat \<times> js_string list) option" where
  "run [] pos s opened caps = Some (pos, caps)"
| "run (Bol # ps) pos s opened caps = (if pos = 0 then run ps pos s opened caps else None)"
| "run (Eol # ps) pos s opened caps = (if s = [] then run ps pos s opened caps else None)"
| "run (One a # ps) pos s opened caps =
     (case s of [] \<Rightarrow> None
      | u # us \<Rightarrow> if accepts a u then run ps (Suc pos) us opened caps else None)"
| "run (Plus a # ps) pos s opened caps =
     greedy (\<lambda>k. run ps (pos + k) (drop k s) opened caps) 1
       (length (takeWhile (accepts a) s))"
| "run (Star a # ps) pos s opened caps =
     greedy (\<lambda>k. run ps (pos + k) (drop k s) opened caps) 0
       (length (takeWhile (accepts a) s))"
| "run (GroupOpen # ps) pos s opened caps = run ps pos s (s # opened) caps"
| "run (GroupClose # ps) pos s opened caps =
     (case opened of [] \<Rightarrow> None
      | b # bs \<Rightarrow> run ps pos s bs (caps @ [take (length b - length s) b]))"

fun first_some :: "(nat \<Rightarrow> 'a option) \<Rightarrow> nat list \<Rightarrow> 'a option" where
  "first_some f [] = None"
| "first_some f (i # is) = (case f i of Some r \<Rightarrow> Some r | None \<Rightarrow> first_some f is)"

text \<open>
  \<^verbatim>\<open>String.prototype.match\<close> with a pattern that has no \<^verbatim>\<open>g\<close> flag: the first start
  index with a match, \<open>None\<close> for \<^verbatim>\<open>null\<close>; the match array holds the matched text at
  index 0 and the captures after it.
\<close>

definition js_match :: "node list \<Rightarrow> js_string \<Rightarrow> js_string list option" where
  "js_match re s =
     first_some (\<lambda>i. case run re i (drop i s) [] [] of
                        None \<Rightarrow> None
                      | Some (e, caps) \<Rightarrow> Some (take (e - i) (drop i s) # caps))
       [0..<Suc (length s)]"

definition lits :: "string \<Rightarrow> node list" where
  "lits cs = map (\<lambda>c. One (Lit c)) cs"

text \<open>The pattern \<^verbatim>\<open>/^data:image\/(\w+);base64,(.*)$/\<close>.\<close>

definition data_uri_regex :: "node list" where
  "data_uri_regex =
     [Bol] @ lits ''data:image/'' @ [GroupOpen, Plus WordChar, GroupClose]
     @ lits '';base64,'' @ [GroupOpen, Star AnyChar, GroupClose] @ [Eol]"

text \<open>
  The shape \<^verbatim>\<open>data:image/<type>;base64,<payload>\<close> in words: a non-empty type of word
  characters and a payload without line terminators.
\<close>

definition data_uri_shape :: "js_string \<Rightarrow> bool" where
  "data_uri_shape s \<longleftrightarrow>
     (\<exists>ty payload. s = str ''data:image/'' @ ty @ str '';base64,'' @ payload
        \<and> ty \<noteq> [] \<and> (\<forall>u\<in>set ty. isWordChar u)
        \<and> (\<forall>u\<in>set payload. \<not> isLineTerminator u))"

subsection \<open>The outside world: services, effects and errors\<close>

datatype error = Error string

type_synonym buffer = "8 word list"

text \<open>
  What \<^verbatim>\<open>response.choices[0]?.message?.content\<close> can be: absent or another falsy value,
  a truthy value that is not a string, or a string.
\<close>

datatype msg_content = Missing | NotString | Text js_string

record message =
  content :: msg_content

record choice =
  message :: "message option"

text \<open>\<open>choices = None\<close> is a response without a \<^verbatim>\<open>choices\<close> array.\<close>

record response =
  choices :: "choice list option"

text \<open>
  A value returned by \<^verbatim>\<open>JSON.parse\<close>, as far as \<^verbatim>\<open>Array.isArray\<close> tells: an array
  or anything else. The elements of an array have the type the function declares for its
  result, \<^verbatim>\<open>BoundingBox[]\<close>.
\<close>

datatype 'a json = JArray "'a list" | JOther

text \<open>The two fields read from sharp's metadata; \<open>None\<close> is \<^verbatim>\<open>undefined\<close>.\<close>

record metadata =
  width_md :: "int option"
  height_md :: "int option"

text \<open>
  The calls the module makes to the outside, in the order they happen, and the lines it
  writes with \<^verbatim>\<open>console.error\<close> (the message; the error object is not recorded).
\<close>

datatype event =
    EInvokeLLM js_string
  | EMetadata buffer
  | EExtract buffer region
  | ENanoid
  | EStoragePut js_string buffer js_string
  | EConsoleError string

text \<open>
  The imported functions are parameters. Those that reach a service take the state
  \<open>'w\<close> of the outside world and return the new one; \<open>Inl\<close> is a rejected promise
  or a thrown error. \<^verbatim>\<open>JSON.parse\<close> returns \<open>None\<close> where it throws a
  \<^verbatim>\<open>SyntaxError\<close>; \<^verbatim>\<open>sharp_extract\<close> is the chain
  \<^verbatim>\<open>sharp(buffer).extract(region).png().toBuffer()\<close>.
\<close>

record 'w env =
  Buffer_from :: "js_string \<Rightarrow> buffer"
  invokeLLM :: "js_string \<Rightarrow> 'w \<Rightarrow> (error + response) \<times> 'w"
  JSON_parse :: "js_string \<Rightarrow> BoundingBox json option"
  sharp_metadata :: "buffer \<Rightarrow> 'w \<Rightarrow> (error + metadata) \<times> 'w"
  sharp_extract :: "buffer \<Rightarrow> region \<Rightarrow> 'w \<Rightarrow> (error + buffer) \<times> 'w"
  nanoid :: "'w \<Rightarrow> js_string \<times> 'w"
  storagePut :: "js_string \<Rightarrow> buffer \<Rightarrow> js_string \<Rightarrow> 'w \<Rightarrow> (error + js_string) \<times> 'w"

record 'w state =
  world :: 'w
  trace :: "event list"

definition emit :: "event \<Rightarrow> 'w state \<Rightarrow> 'w state" where
  "emit e st = st\<lparr>trace := trace st @ [e]\<rparr>"

definition call :: "event \<Rightarrow> ('w \<Rightarrow> 'a \<times> 'w) \<Rightarrow> 'w state \<Rightarrow> 'a \<times> 'w state" where
  "call e f st = (case f (world st) of (r, w') \<Rightarrow> (r, \<lparr>world = w', trace = trace st @ [e]\<rparr>))"

subsection \<open>Results\<close>

text \<open>
  \<^verbatim>\<open>interface CropResult { id; url; bbox }\<close> and \<^verbatim>\<open>interface ProcessingResult\<close>. The
  field \<^verbatim>\<open>id\<close> is \<open>id_crop\<close> here, \<open>id\<close> being the identity function.
\<close>

type_synonym bbox_tuple = "real \<times> real \<times> real \<times> real"

record CropResult =
  id_crop :: js_string
  url :: js_string
  bbox :: bbox_tuple

record ProcessingResult =
  crops :: "CropResult list"
  bboxes :: "bbox_tuple list"

subsection \<open>\<^verbatim>\<open>base64ToBuffer\<close>\<close>

definition base64ToBuffer :: "'w env \<Rightarrow> js_string \<Rightarrow> error + buffer" where
  "base64ToBuffer env base64 =
     (case js_match data_uri_regex base64 of
        None \<Rightarrow> Inl (Error ''Invalid base64 image data'')
      | Some matches \<Rightarrow> Inr (Buffer_from env (matches ! 2)))"

subsection \<open>\<^verbatim>\<open>getImageDimensions\<close>\<close>

text \<open>\<^verbatim>\<open>v || d\<close> on a number or \<^verbatim>\<open>undefined\<close>: \<open>d\<close> when \<open>v\<close> is absent or 0.\<close>

definition or_default :: "int option \<Rightarrow> int \<Rightarrow> int" where
  "or_default v d = (case v of None \<Rightarrow> d | Some n \<Rightarrow> if n = 0 then d else n)"

definition getImageDimensions ::
  "'w env \<Rightarrow> buffer \<Rightarrow> 'w state \<Rightarrow> (error + imageDimensions) \<times> 'w state" where
  "getImageDimensions env buffer st =
     (case call (EMetadata buffer) (sharp_metadata env buffer) st of
        (Inl e, st') \<Rightarrow> (Inl e, st')
      | (Inr md, st') \<Rightarrow>
          (Inr \<lparr>width = or_default (width_md md) 1000,
                height = or_default (height_md md) 1000\<rparr>, st'))"

subsection \<open>\<^verbatim>\<open>detectWineLabels\<close>\<close>

text \<open>\<^verbatim>\<open>choices[0]?.message?.content\<close> on an array of choices.\<close>

definition first_content :: "choice list \<Rightarrow> msg_content" where
  "first_content cs =
     (case cs of [] \<Rightarrow> Missing
      | c # _ \<Rightarrow> (case message c of None \<Rightarrow> Missing | Some m \<Rightarrow> content m))"

text \<open>
  The call of \<^verbatim>\<open>invokeLLM\<close> is outside the \<^verbatim>\<open>try\<close>: its error is the function's
  error. Inside the \<^verbatim>\<open>try\<close>, a response without \<^verbatim>\<open>choices\<close> and a string that
  \<^verbatim>\<open>JSON.parse\<close> rejects both end in the \<^verbatim>\<open>catch\<close>, which logs and returns
  \<^verbatim>\<open>[]\<close>. \<^verbatim>\<open>!content\<close> holds of the empty string too.
\<close>

definition detectWineLabels ::
  "'w env \<Rightarrow> js_string \<Rightarrow> 'w state \<Rightarrow> (error + BoundingBox list) \<times> 'w state" where
  "detectWineLabels env imageBase64 st =
     (case call (EInvokeLLM imageBase64) (invokeLLM env imageBase64) st of
        (Inl e, st') \<Rightarrow> (Inl e, st')
      | (Inr response, st') \<Rightarrow>
          (case choices response of
             None \<Rightarrow> (Inr [], emit (EConsoleError ''Failed to parse LLM response:'') st')
           | Some cs \<Rightarrow>
               (case first_content cs of
                  Missing \<Rightarrow> (Inr [], st')
                | NotString \<Rightarrow> (Inr [], st')
                | Text t \<Rightarrow>
                    if t = [] then (Inr [], st')
                    else (case JSON_parse env t of
                            None \<Rightarrow>
                              (Inr [], emit (EConsoleError ''Failed to parse LLM response:'') st')
                          | Some (JArray parsed) \<Rightarrow> (Inr parsed, st')
                          | Some JOther \<Rightarrow> (Inr [], st')))))"

subsection \<open>\<^verbatim>\<open>cropImageSharp\<close>\<close>

definition cropImageSharp ::
  "'w env \<Rightarrow> buffer \<Rightarrow> BoundingBox \<Rightarrow> imageDimensions \<Rightarrow> 'w state \<Rightarrow> (error + buffer) \<times> 'w state"
  where
  "cropImageSharp env buffer b d st =
     call (EExtract buffer (cropRegion b d)) (sharp_extract env buffer (cropRegion b d)) st"

subsection \<open>\<^verbatim>\<open>processWineImage\<close>\<close>

definition bbox_of :: "BoundingBox \<Rightarrow> bbox_tuple" where
  "bbox_of b = (ymin b, xmin b, ymax b, xmax b)"

text \<open>
  One iteration of the \<^verbatim>\<open>for\<close> loop, with its \<^verbatim>\<open>try\<close> and \<^verbatim>\<open>catch\<close>: the two
  arrays are the accumulators.
\<close>

definition processLabel ::
  "'w env \<Rightarrow> buffer \<Rightarrow> imageDimensions \<Rightarrow> BoundingBox
     \<Rightarrow> CropResult list \<times> bbox_tuple list \<Rightarrow> 'w state
     \<Rightarrow> (CropResult list \<times> bbox_tuple list) \<times> 'w state" where
  "processLabel env imageBuffer d b acc st =
     (case cropImageSharp env imageBuffer b d st of
        (Inl e, st1) \<Rightarrow>
          (acc, emit (EConsoleError ''Failed to process individual label:'') st1)
      | (Inr croppedBuffer, st1) \<Rightarrow>
          (case call ENanoid (nanoid env) st1 of
             (cropId, st2) \<Rightarrow>
               (case call (EStoragePut (str ''wine-crops/'' @ cropId @ str ''.png'')
                             croppedBuffer (str ''image/png''))
                          (storagePut env (str ''wine-crops/'' @ cropId @ str ''.png'')
                             croppedBuffer (str ''image/png'')) st2 of
                  (Inl e, st3) \<Rightarrow>
                    (acc, emit (EConsoleError ''Failed to process individual label:'') st3)
                | (Inr u, st3) \<Rightarrow>
                    ((fst acc @ [\<lparr>id_crop = cropId, url = u, bbox = bbox_of b\<rparr>],
                      snd acc @ [bbox_of b]), st3))))"

fun processLabels ::
  "'w env \<Rightarrow> buffer \<Rightarrow> imageDimensions \<Rightarrow> BoundingBox list
     \<Rightarrow> CropResult list \<times> bbox_tuple list \<Rightarrow> 'w state
     \<Rightarrow> (CropResult list \<times> bbox_tuple list) \<times> 'w state" where
  "processLabels env imageBuffer d [] acc st = (acc, st)"
| "processLabels env imageBuffer d (b # bs) acc st =
     (case processLabel env imageBuffer d b acc st of
        (acc', st') \<Rightarrow> processLabels env imageBuffer d bs acc' st')"

text \<open>The body of the outer \<^verbatim>\<open>try\<close>.\<close>

definition processWineImage_try ::
  "'w env \<Rightarrow> js_string \<Rightarrow> 'w state \<Rightarrow> (error + ProcessingResult) \<times> 'w state" where
  "processWineImage_try env imageBase64 st =
     (case base64ToBuffer env imageBase64 of
        Inl e \<Rightarrow> (Inl e, st)
      | Inr imageBuffer \<Rightarrow>
          (case detectWineLabels env imageBase64 st of
             (Inl e, st1) \<Rightarrow> (Inl e, st1)
           | (Inr detectedLabels, st1) \<Rightarrow>
               if length detectedLabels = 0 then (Inr \<lparr>crops = [], bboxes = []\<rparr>, st1)
               else
                 (case getImageDimensions env imageBuffer st1 of
                    (Inl e, st2) \<Rightarrow> (Inl e, st2)
                  | (Inr d, st2) \<Rightarrow>
                      (case processLabels env imageBuffer d detectedLabels ([], []) st2 of
                         ((cs, bs), st3) \<Rightarrow> (Inr \<lparr>crops = cs, bboxes = bs\<rparr>, st3)))))"

text \<open>The outer \<^verbatim>\<open>catch\<close> logs and throws the error again.\<close>

definition processWineImage ::
  "'w env \<Rightarrow> js_string \<Rightarrow> 'w state \<Rightarrow> (error + ProcessingResult) \<times> 'w state" where
  "processWineImage env imageBase64 st =
     (case processWineImage_try env imageBase64 st of
        (Inl e, st') \<Rightarrow> (Inl e, emit (EConsoleError ''Failed to process wine image:'') st')
      | (Inr r, st') \<Rightarrow> (Inr r, st'))"

subsection \<open>Counting the boxes that failed\<close>

text \<open>
  The \<^verbatim>\<open>catch\<close> inside the loop is the only place that logs this message, once for
  each box whose crop or store step threw.
\<close>

definition labelFailures :: "event list \<Rightarrow> nat" where
  "labelFailures tr = count_list tr (EConsoleError ''Failed to process individual label:'')"

subsection \<open>The crop and store step of one box, on the services alone\<close>

text \<open>
  What the services answer for one box, from the state \<open>w\<close> of the outside world:
  \<^verbatim>\<open>extract\<close> on the region of the box, then \<^verbatim>\<open>nanoid\<close> and \<^verbatim>\<open>storagePut\<close> on the
  buffer it returned. \<open>Inl\<close> is a step that failed, in \<^verbatim>\<open>extract\<close> or in
  \<^verbatim>\<open>storagePut\<close>; \<open>Inr\<close> holds the identifier and the URL. This is the notion
  of a failing box that the claim about skipped boxes is stated with; it does not mention
  \<open>processLabel\<close>.
\<close>

definition cropStore ::
  "'w env \<Rightarrow> buffer \<Rightarrow> imageDimensions \<Rightarrow> BoundingBox \<Rightarrow> 'w
     \<Rightarrow> (error + js_string \<times> js_string) \<times> 'w" where
  "cropStore env imageBuffer d b w =
     (case sharp_extract env imageBuffer (cropRegion b d) w of
        (Inl e, w1) \<Rightarrow> (Inl e, w1)
      | (Inr croppedBuffer, w1) \<Rightarrow>
          (case nanoid env w1 of
             (cropId, w2) \<Rightarrow>
               (case storagePut env (str ''wine-crops/'' @ cropId @ str ''.png'')
                       croppedBuffer (str ''image/png'') w2 of
                  (Inl e, w3) \<Rightarrow> (Inl e, w3)
                | (Inr u, w3) \<Rightarrow> (Inr (cropId, u), w3))))"

text \<open>The outcomes of the boxes of a sequence, each from the world the one before left.\<close>

fun stepOutcomes ::
  "'w env \<Rightarrow> buffer \<Rightarrow> imageDimensions \<Rightarrow> BoundingBox list \<Rightarrow> 'w
     \<Rightarrow> (error + js_string \<times> js_string) list" where
  "stepOutcomes env imageBuffer d [] w = []"
| "stepOutcomes env imageBuffer d (b # bs) w =
     (case cropStore env imageBuffer d b w of
        (r, w') \<Rightarrow> r # stepOutcomes env imageBuffer d bs w')"

text \<open>The crop results of the boxes whose step succeeded, in the order of the boxes.\<close>

fun keptCrops :: "BoundingBox list \<Rightarrow> (error + js_string \<times> js_string) list \<Rightarrow> CropResult list"
  where
  "keptCrops (b # bs) (Inr (cropId, u) # outs) =
     \<lparr>id_crop = cropId, url = u, bbox = bbox_of b\<rparr> # keptCrops bs outs"
| "keptCrops (b # bs) (Inl e # outs) = keptCrops bs outs"
| "keptCrops bs outs = []"

subsection \<open>A concrete environment\<close>

text \<open>
  An instance of the services to run the pipeline on: the world is a counter of calls,
  \<^verbatim>\<open>extract\<close> rejects a region with a negative origin or a non-positive extent, as
  sharp does, and every other call succeeds.
\<close>

definition demo_extract :: "buffer \<Rightarrow> region \<Rightarrow> nat \<Rightarrow> (error + buffer) \<times> nat" where
  "demo_extract b r w =
     (if 0 \<le> left_r r \<and> 0 \<le> top_r r \<and> 1 \<le> width_r r \<and> 1 \<le> height_r r then Inr b
      else Inl (Error ''extract_area: bad extract area''), Suc w)"

definition demo_env :: "response \<Rightarrow> (js_string \<Rightarrow> BoundingBox json option) \<Rightarrow> metadata \<Rightarrow> nat env" where
  "demo_env resp parse md =
     \<lparr>Buffer_from = map ucast,
      invokeLLM = (\<lambda>u w. (Inr resp, Suc w)),
      JSON_parse = parse,
      sharp_metadata = (\<lambda>b w. (Inr md, Suc w)),
      sharp_extract = demo_extract,
      nanoid = (\<lambda>w. ([of_nat w], Suc w)),
      storagePut = (\<lambda>k b c w. (Inr (str ''https://cdn/'' @ k), Suc w))\<rparr>"

definition text_response :: "js_string \<Rightarrow> response" where
  "text_response t = \<lparr>choices = Some [\<lparr>message = Some \<lparr>content = Text t\<rparr>\<rparr>]\<rparr>"

text \<open>A box inside the grid, an inverted box, and a box that leaves the grid.\<close>

definition demo_boxes :: "BoundingBox list" where
  "demo_boxes =
     [\<lparr>ymin = 100, xmin = 200, ymax = 500, xmax = 700\<rparr>,
      \<lparr>ymin = 100, xmin = 900, ymax = 500, xmax = 100\<rparr>,
      \<lparr>ymin = - 50, xmin = - 20, ymax = 1200, xmax = 1500\<rparr>]"

text \<open>
  \<^verbatim>\<open>JSON.parse\<close> as a table: one text that stands for an array of the three boxes,
  one that stands for an object, and every other text is rejected.
\<close>

definition demo_parse :: "js_string \<Rightarrow> BoundingBox json option" where
  "demo_parse t = (if t = str ''[b1,b2,b3]'' then Some (JArray demo_boxes)
                   else if t = str ''{}'' then Some JOther else None)"

definition demo_uri :: js_string where
  "demo_uri = str ''data:image/png;base64,AAAA''"

definition st0 :: "nat state" where
  "st0 = \<lparr>world = 0, trace = []\<rparr>"

text \<open>The model answers with the three boxes; the metadata has no dimensions.\<close>

definition demo_E :: "nat env" where
  "demo_E = demo_env (text_response (str ''[b1,b2,b3]'')) demo_parse
              \<lparr>width_md = None, height_md = None\<rparr>"

text \<open>The model answers with prose; the metadata has both dimensions.\<close>

definition demo_E_text :: "nat env" where
  "demo_E_text = demo_env (text_response (str ''no labels found'')) demo_parse
                   \<lparr>width_md = Some 800, height_md = Some 600\<rparr>"

section \<open>Properties of the coordinate mapping\<close>

lemmas mapping_defs =
  cropRegion_def cropX_def cropY_def cropW_def cropH_def padW_def padH_def
  pixelX_def pixelY_def pixelW_def pixelH_def scaleX_def scaleY_def

text \<open>Five percent of an integer, rounded down, is the integer divided by 20.\<close>

lemma padW_floor_div: "padW b d = max 1 (pixelW b d div 20)"
proof -
  have "real_of_int (pixelW b d) * 0.05 = real_of_int (pixelW b d) / real_of_int 20"
    by simp
  then have "\<lfloor>real_of_int (pixelW b d) * 0.05\<rfloor> = pixelW b d div 20"
    by (simp only: floor_divide_of_int_eq)
  then show ?thesis by (simp add: padW_def)
qed

lemma padH_floor_div: "padH b d = max 1 (pixelH b d div 20)"
proof -
  have "real_of_int (pixelH b d) * 0.05 = real_of_int (pixelH b d) / real_of_int 20"
    by simp
  then have "\<lfloor>real_of_int (pixelH b d) * 0.05\<rfloor> = pixelH b d div 20"
    by (simp only: floor_divide_of_int_eq)
  then show ?thesis by (simp add: padH_def)
qed

text \<open>
  Claim C7. The padding is at least one pixel in each axis, for every box and every
  image size; in particular when the unpadded pixel width or height is 0.
\<close>

theorem padding_at_least_one: "1 \<le> padW b d \<and> 1 \<le> padH b d"
  by (simp add: padW_def padH_def)

lemma cropX_cropW_le: "cropX b d + cropW b d \<le> width d"
proof -
  have "cropW b d \<le> width d - cropX b d"
    unfolding cropW_def by (rule min.cobounded1)
  then show ?thesis by linarith
qed

lemma cropY_cropH_le: "cropY b d + cropH b d \<le> height d"
proof -
  have "cropH b d \<le> height d - cropY b d"
    unfolding cropH_def by (rule min.cobounded1)
  then show ?thesis by linarith
qed

text \<open>
  Claim C1. The region handed to \<^verbatim>\<open>extract\<close> has a non-negative origin and ends
  inside the image in both axes. The origin is clamped to 0 first, and the extent is the
  minimum of the padded extent and the space that remains from the clamped origin.
\<close>

theorem crop_region_within_image:
  "0 \<le> left_r (cropRegion b d) \<and> 0 \<le> top_r (cropRegion b d)
   \<and> left_r (cropRegion b d) + width_r (cropRegion b d) \<le> width d
   \<and> top_r (cropRegion b d) + height_r (cropRegion b d) \<le> height d
   \<and> left_r (cropRegion b d) = max 0 (pixelX b d - padW b d)
   \<and> top_r (cropRegion b d) = max 0 (pixelY b d - padH b d)
   \<and> width_r (cropRegion b d)
       = min (width d - left_r (cropRegion b d)) (pixelW b d + padW b d * 2)
   \<and> height_r (cropRegion b d)
       = min (height d - top_r (cropRegion b d)) (pixelH b d + padH b d * 2)"
  using cropX_cropW_le [of b d] cropY_cropH_le [of b d]
  by (simp add: cropRegion_def cropX_def cropY_def cropW_def cropH_def)

lemma pixelW_nonneg:
  assumes "0 < width d" and "xmin b \<le> xmax b"
  shows "0 \<le> pixelW b d"
proof -
  have "0 \<le> (xmax b - xmin b) * scaleX d"
    using assms by (simp add: scaleX_def)
  then show ?thesis
    unfolding pixelW_def by (simp add: le_ceiling_iff)
qed

lemma pixelH_nonneg:
  assumes "0 < height d" and "ymin b \<le> ymax b"
  shows "0 \<le> pixelH b d"
proof -
  have "0 \<le> (ymax b - ymin b) * scaleY d"
    using assms by (simp add: scaleY_def)
  then show ?thesis
    unfolding pixelH_def by (simp add: le_ceiling_iff)
qed

lemma pixelX_le_width:
  assumes "0 < width d" and "xmin b \<le> 1000"
  shows "pixelX b d \<le> width d"
proof -
  have "xmin b * scaleX d \<le> 1000 * scaleX d"
    using assms by (simp add: scaleX_def mult_right_mono)
  also have "\<dots> = real_of_int (width d)"
    by (simp add: scaleX_def)
  finally show ?thesis
    unfolding pixelX_def by (simp add: floor_le_iff)
qed

lemma pixelY_le_height:
  assumes "0 < height d" and "ymin b \<le> 1000"
  shows "pixelY b d \<le> height d"
proof -
  have "ymin b * scaleY d \<le> 1000 * scaleY d"
    using assms by (simp add: scaleY_def mult_right_mono)
  also have "\<dots> = real_of_int (height d)"
    by (simp add: scaleY_def)
  finally show ?thesis
    unfolding pixelY_def by (simp add: floor_le_iff)
qed

lemma cropW_ge_1:
  assumes "0 < width d" and "xmin b \<le> xmax b" and "xmin b \<le> 1000"
  shows "1 \<le> cropW b d"
proof -
  have p: "1 \<le> padW b d" by (simp add: padW_def)
  have w: "0 \<le> pixelW b d" using assms by (simp add: pixelW_nonneg)
  have x: "pixelX b d \<le> width d" using assms by (simp add: pixelX_le_width)
  have "cropX b d \<le> width d - 1"
    unfolding cropX_def using p x assms(1) by simp
  then show ?thesis
    unfolding cropW_def using p w by simp
qed

lemma cropH_ge_1:
  assumes "0 < height d" and "ymin b \<le> ymax b" and "ymin b \<le> 1000"
  shows "1 \<le> cropH b d"
proof -
  have p: "1 \<le> padH b d" by (simp add: padH_def)
  have w: "0 \<le> pixelH b d" using assms by (simp add: pixelH_nonneg)
  have x: "pixelY b d \<le> height d" using assms by (simp add: pixelY_le_height)
  have "cropY b d \<le> height d - 1"
    unfolding cropY_def using p x assms(1) by simp
  then show ?thesis
    unfolding cropH_def using p w by simp
qed

text \<open>
  Claim C3, as stated, fails: the inverted box \<^verbatim>\<open>{ymin:100, xmin:900, ymax:500, xmax:100}\<close>
  on a 1000 by 1000 image is mapped to a region of width \<open>-798\<close>.
\<close>

theorem inverted_box_negative_width:
  "0 < width \<lparr>width = 1000, height = 1000\<rparr> \<and> 0 < height \<lparr>width = 1000, height = 1000\<rparr>
   \<and> width_r (cropRegion \<lparr>ymin = 100, xmin = 900, ymax = 500, xmax = 100\<rparr>
                \<lparr>width = 1000, height = 1000\<rparr>) = - 798
   \<and> \<not> 1 \<le> width_r (cropRegion \<lparr>ymin = 100, xmin = 900, ymax = 500, xmax = 100\<rparr>
                \<lparr>width = 1000, height = 1000\<rparr>)"
  by (simp add: mapping_defs)

text \<open>
  A box that starts right of the grid fails in the same way, so the amended claim bounds
  the origin as well: \<^verbatim>\<open>{ymin:0, xmin:2000, ymax:100, xmax:2100}\<close> gets width \<open>-995\<close>.
\<close>

lemma origin_right_of_grid_negative_width:
  "width_r (cropRegion \<lparr>ymin = 0, xmin = 2000, ymax = 100, xmax = 2100\<rparr>
              \<lparr>width = 1000, height = 1000\<rparr>) = - 995"
  by (simp add: mapping_defs)

text \<open>
  Claim C3, amended. For every box that is not inverted (\<open>xmin \<le> xmax\<close>,
  \<open>ymin \<le> ymax\<close>) and whose origin is not beyond the grid (\<open>xmin \<le> 1000\<close>,
  \<open>ymin \<le> 1000\<close>), and every positive image width and height, the region has width
  and height at least 1.
\<close>

theorem crop_extent_positive:
  assumes "0 < width d" and "0 < height d"
      and "xmin b \<le> xmax b" and "ymin b \<le> ymax b"
      and "xmin b \<le> 1000" and "ymin b \<le> 1000"
  shows "1 \<le> width_r (cropRegion b d) \<and> 1 \<le> height_r (cropRegion b d)"
  using assms by (simp add: cropRegion_def cropW_ge_1 cropH_ge_1)

theorem crop_extent_positive_witness:
  "0 < width \<lparr>width = 640, height = 480\<rparr> \<and> 0 < height \<lparr>width = 640, height = 480\<rparr>
   \<and> xmin \<lparr>ymin = 1000, xmin = 1000, ymax = 1000, xmax = 1000\<rparr>
        \<le> xmax \<lparr>ymin = 1000, xmin = 1000, ymax = 1000, xmax = 1000\<rparr>
   \<and> ymin \<lparr>ymin = 1000, xmin = 1000, ymax = 1000, xmax = 1000\<rparr>
        \<le> ymax \<lparr>ymin = 1000, xmin = 1000, ymax = 1000, xmax = 1000\<rparr>
   \<and> xmin \<lparr>ymin = 1000, xmin = 1000, ymax = 1000, xmax = 1000\<rparr> \<le> 1000
   \<and> ymin \<lparr>ymin = 1000, xmin = 1000, ymax = 1000, xmax = 1000\<rparr> \<le> 1000
   \<and> 1 \<le> width_r (cropRegion \<lparr>ymin = 1000, xmin = 1000, ymax = 1000, xmax = 1000\<rparr>
                  \<lparr>width = 640, height = 480\<rparr>)
   \<and> 1 \<le> height_r (cropRegion \<lparr>ymin = 1000, xmin = 1000, ymax = 1000, xmax = 1000\<rparr>
                  \<lparr>width = 640, height = 480\<rparr>)"
  using crop_extent_positive
    [of "\<lparr>width = 640, height = 480\<rparr>" "\<lparr>ymin = 1000, xmin = 1000, ymax = 1000, xmax = 1000\<rparr>"]
  by simp

text \<open>
  Claim C4. The box \<^verbatim>\<open>{ymin:100, xmin:200, ymax:500, xmax:700}\<close> on a 1000 by 1000 image:
  base rectangle \<open>x = 200\<close>, \<open>y = 100\<close>, \<open>w = 500\<close>, \<open>h = 400\<close>; padding 25 and 20;
  final region \<open>x = 175\<close>, \<open>y = 80\<close>, \<open>w = 550\<close>, \<open>h = 440\<close>.
\<close>

theorem example_mapping:
  "pixelX \<lparr>ymin = 100, xmin = 200, ymax = 500, xmax = 700\<rparr> \<lparr>width = 1000, height = 1000\<rparr> = 200
   \<and> pixelY \<lparr>ymin = 100, xmin = 200, ymax = 500, xmax = 700\<rparr> \<lparr>width = 1000, height = 1000\<rparr> = 100
   \<and> pixelW \<lparr>ymin = 100, xmin = 200, ymax = 500, xmax = 700\<rparr> \<lparr>width = 1000, height = 1000\<rparr> = 500
   \<and> pixelH \<lparr>ymin = 100, xmin = 200, ymax = 500, xmax = 700\<rparr> \<lparr>width = 1000, height = 1000\<rparr> = 400
   \<and> padW \<lparr>ymin = 100, xmin = 200, ymax = 500, xmax = 700\<rparr> \<lparr>width = 1000, height = 1000\<rparr> = 25
   \<and> padH \<lparr>ymin = 100, xmin = 200, ymax = 500, xmax = 700\<rparr> \<lparr>width = 1000, height = 1000\<rparr> = 20
   \<and> cropRegion \<lparr>ymin = 100, xmin = 200, ymax = 500, xmax = 700\<rparr> \<lparr>width = 1000, height = 1000\<rparr>
       = \<lparr>left_r = 175, top_r = 80, width_r = 550, height_r = 440\<rparr>"
  by (simp add: mapping_defs)

section \<open>The data URI pattern\<close>

lemma greedy_top:
  "(\<And>k. lo \<le> k \<Longrightarrow> k < hi \<Longrightarrow> f k = None) \<Longrightarrow>
   greedy f lo hi = (if lo \<le> hi then f hi else None)"
proof (induction hi)
  case 0
  then show ?case by simp
next
  case (Suc n)
  show ?case
  proof (cases "f (Suc n)")
    case None
    have "greedy f lo n = (if lo \<le> n then f n else None)"
      using Suc by simp
    moreover have "lo \<le> n \<Longrightarrow> f n = None" using Suc.prems by simp
    ultimately have "greedy f lo n = None" by simp
    then show ?thesis using None by simp
  next
    case (Some r)
    then show ?thesis by auto
  qed
qed

lemma first_some_all_None:
  "(\<And>i. i \<in> set is \<Longrightarrow> f i = None) \<Longrightarrow> first_some f is = None"
  by (induction "is") auto

lemma run_lits:
  "run (lits cs @ ps) pos s opened caps =
     (if prefix (str cs) s then run ps (pos + length cs) (drop (length cs) s) opened caps
      else None)"
proof (induction cs arbitrary: pos s)
  case Nil
  then show ?case by (simp add: lits_def str_def)
next
  case (Cons c cs)
  have IH: "\<And>pos s. run (lits cs @ ps) pos s opened caps =
     (if prefix (str cs) s then run ps (pos + length cs) (drop (length cs) s) opened caps
      else None)"
    using Cons.IH by simp
  have l: "lits (c # cs) = One (Lit c) # lits cs" by (simp add: lits_def)
  have st: "str (c # cs) = of_char c # str cs" by (simp add: str_def)
  show ?case
  proof (cases s)
    case Nil
    then show ?thesis by (simp add: l st)
  next
    case (Cons u us)
    then show ?thesis by (simp add: l st IH)
  qed
qed


lemma js_match_Bol:
  "js_match (Bol # ps) s =
     (case run ps 0 s [] [] of None \<Rightarrow> None | Some (e, caps) \<Rightarrow> Some (take e s # caps))"
proof -
  let ?F = "\<lambda>i. case run (Bol # ps) i (drop i s) [] [] of
                        None \<Rightarrow> None
                      | Some (e, caps) \<Rightarrow> Some (take (e - i) (drop i s) # caps)"
  have up: "[0..<Suc (length s)] = 0 # [Suc 0..<Suc (length s)]"
    by (subst upt_rec) simp
  have rest: "first_some ?F [Suc 0..<Suc (length s)] = None"
    by (rule first_some_all_None) auto
  have "js_match (Bol # ps) s = first_some ?F (0 # [Suc 0..<Suc (length s)])"
    by (simp only: js_match_def up)
  also have "\<dots> = (case ?F 0 of Some r \<Rightarrow> Some r | None \<Rightarrow> None)"
    by (simp only: first_some.simps rest)
  also have "\<dots> = ?F 0"
    by (simp split: option.splits)
  also have "\<dots> = (case run ps 0 s [] [] of None \<Rightarrow> None | Some (e, caps) \<Rightarrow> Some (take e s # caps))"
    by (simp split: option.splits)
  finally show ?thesis .
qed

lemma run_tail:
  "run [GroupOpen, Star AnyChar, GroupClose, Eol] p q [] [ty] =
     (if \<forall>u\<in>set q. \<not> isLineTerminator u then Some (p + length q, [ty, q]) else None)"
proof -
  let ?m = "length (takeWhile (accepts AnyChar) q)"
  let ?g = "\<lambda>k. run [GroupClose, Eol] (p + k) (drop k q) [q] [ty]"
  have m_le: "?m \<le> length q" by (rule length_takeWhile_le)
  have g: "?g k = (if length q \<le> k then Some (p + k, [ty, take (length q - length (drop k q)) q]) else None)" for k
    by simp
  have "greedy ?g 0 ?m = (if 0 \<le> ?m then ?g ?m else None)"
  proof (rule greedy_top)
    fix k assume "k < ?m"
    then have "k < length q" using m_le by linarith
    then show "?g k = None" by simp
  qed
  then have gr: "greedy ?g 0 ?m = ?g ?m" by simp
  have all: "(length q \<le> ?m) = (\<forall>u\<in>set q. \<not> isLineTerminator u)"
  proof
    assume "length q \<le> ?m"
    then have "?m = length q" using m_le by linarith
    then have "takeWhile (accepts AnyChar) q = q"
      by (metis length_takeWhile_le takeWhile_eq_take take_all_iff le_refl)
    then have "\<forall>u\<in>set q. accepts AnyChar u"
      by (simp add: takeWhile_eq_all_conv)
    then show "\<forall>u\<in>set q. \<not> isLineTerminator u" by simp
  next
    assume "\<forall>u\<in>set q. \<not> isLineTerminator u"
    then have tw: "takeWhile (accepts AnyChar) q = q"
      by (simp add: takeWhile_eq_all_conv)
    show "length q \<le> ?m" unfolding tw by (rule le_refl)
  qed
  have "run [GroupOpen, Star AnyChar, GroupClose, Eol] p q [] [ty] = greedy ?g 0 ?m"
    by simp
  also have "\<dots> = ?g ?m" by (rule gr)
  also have "\<dots> = (if length q \<le> ?m then Some (p + ?m, [ty, take (length q - length (drop ?m q)) q]) else None)"
    by (rule g)
  also have "\<dots> = (if \<forall>u\<in>set q. \<not> isLineTerminator u then Some (p + length q, [ty, q]) else None)"
  proof (cases "length q \<le> ?m")
    case True
    then have "?m = length q" using m_le by linarith
    moreover have "\<forall>u\<in>set q. \<not> isLineTerminator u" using True all by blast
    ultimately show ?thesis by simp
  next
    case False
    moreover have "\<not> (\<forall>u\<in>set q. \<not> isLineTerminator u)" using False all by blast
    ultimately show ?thesis by (simp only: if_False)
  qed
  finally show ?thesis .
qed


lemma not_word_semicolon: "\<not> isWordChar (of_char CHR '';'')"
  by (simp add: isWordChar_def)

lemma run_type_group:
  "run ([GroupOpen, Plus WordChar, GroupClose] @ lits '';base64,'' @ ps) p r [] [] =
     (if takeWhile isWordChar r \<noteq> [] \<and> prefix (str '';base64,'') (dropWhile isWordChar r)
      then run ps (p + length (takeWhile isWordChar r) + 8)
             (drop 8 (dropWhile isWordChar r)) [] [takeWhile isWordChar r]
      else None)"
proof -
  let ?n = "length (takeWhile isWordChar r)"
  let ?f = "\<lambda>k. run (GroupClose # lits '';base64,'' @ ps) (p + k) (drop k r) [r] []"
  have acc: "accepts WordChar = isWordChar" by (rule ext) simp
  have n_le: "?n \<le> length r" by (rule length_takeWhile_le)
  have f: "?f k = (if prefix (str '';base64,'') (drop k r)
                   then run ps (p + k + 8) (drop 8 (drop k r)) [] [take (length r - length (drop k r)) r]
                   else None)" for k
  proof -
    have len: "length '';base64,'' = 8" by simp
    have "?f k = run (lits '';base64,'' @ ps) (p + k) (drop k r) []
                   [take (length r - length (drop k r)) r]"
      by simp
    also have "\<dots> = (if prefix (str '';base64,'') (drop k r)
                   then run ps (p + k + length '';base64,'') (drop (length '';base64,'') (drop k r)) []
                          [take (length r - length (drop k r)) r]
                   else None)"
      by (rule run_lits)
    finally show ?thesis by (simp only: len)
  qed
  have below: "?f k = None" if "k < ?n" for k
  proof -
    have kl: "k < length r" using that n_le by linarith
    have "r ! k \<in> set (takeWhile isWordChar r)"
      using that by (metis nth_mem takeWhile_nth)
    then have w: "isWordChar (r ! k)" by (rule set_takeWhileD [THEN conjunct2])
    have d: "drop k r = r ! k # drop (Suc k) r"
      using kl by (simp add: Cons_nth_drop_Suc)
    have "\<not> prefix (str '';base64,'') (drop k r)"
    proof
      assume "prefix (str '';base64,'') (drop k r)"
      then have "r ! k = of_char CHR '';''"
        unfolding d by (simp add: str_def)
      then show False using w not_word_semicolon by simp
    qed
    then show ?thesis by (simp only: f if_False)
  qed
  have "run ([GroupOpen, Plus WordChar, GroupClose] @ lits '';base64,'' @ ps) p r [] [] = greedy ?f 1 ?n"
    by (simp add: acc)
  also have "\<dots> = (if 1 \<le> ?n then ?f ?n else None)"
    by (rule greedy_top) (rule below)
  also have "\<dots> = (if takeWhile isWordChar r \<noteq> [] then ?f ?n else None)"
    by (cases "takeWhile isWordChar r") simp_all
  also have "\<dots> = (if takeWhile isWordChar r \<noteq> [] \<and> prefix (str '';base64,'') (dropWhile isWordChar r)
      then run ps (p + ?n + 8) (drop 8 (dropWhile isWordChar r)) [] [takeWhile isWordChar r]
      else None)"
  proof -
    have dr: "drop ?n r = dropWhile isWordChar r"
      by (rule dropWhile_eq_drop [symmetric])
    have "length r - length (drop ?n r) = ?n"
      using n_le by simp
    then have tk: "take (length r - length (drop ?n r)) r = takeWhile isWordChar r"
      by (simp only: takeWhile_eq_take [symmetric])
    show ?thesis by (simp only: f tk) (simp only: dr, simp)
  qed
  finally show ?thesis .
qed

lemma js_match_data_uri:
  "js_match data_uri_regex s =
     (if prefix (str ''data:image/'') s
         \<and> takeWhile isWordChar (drop 11 s) \<noteq> []
         \<and> prefix (str '';base64,'') (dropWhile isWordChar (drop 11 s))
         \<and> (\<forall>u\<in>set (drop 8 (dropWhile isWordChar (drop 11 s))). \<not> isLineTerminator u)
      then Some [s, takeWhile isWordChar (drop 11 s), drop 8 (dropWhile isWordChar (drop 11 s))]
      else None)"
proof -
  let ?r = "drop 11 s"
  let ?ty = "takeWhile isWordChar ?r"
  let ?q = "drop 8 (dropWhile isWordChar ?r)"
  let ?tail = "[GroupOpen, Star AnyChar, GroupClose, Eol]"
  have re: "data_uri_regex =
      Bol # (lits ''data:image/'' @ ([GroupOpen, Plus WordChar, GroupClose] @ lits '';base64,'' @ ?tail))"
    by (simp add: data_uri_regex_def)
  have len: "length ''data:image/'' = 11" by simp
  have r1: "run (lits ''data:image/'' @ ([GroupOpen, Plus WordChar, GroupClose] @ lits '';base64,'' @ ?tail)) 0 s [] [] =
     (if prefix (str ''data:image/'') s
      then run ([GroupOpen, Plus WordChar, GroupClose] @ lits '';base64,'' @ ?tail) 11 ?r [] []
      else None)"
    by (simp only: run_lits len add_0)
  have r2: "run ([GroupOpen, Plus WordChar, GroupClose] @ lits '';base64,'' @ ?tail) 11 ?r [] [] =
     (if ?ty \<noteq> [] \<and> prefix (str '';base64,'') (dropWhile isWordChar ?r)
      then run ?tail (11 + length ?ty + 8) ?q [] [?ty]
      else None)"
    by (rule run_type_group)
  have r3: "run ?tail (11 + length ?ty + 8) ?q [] [?ty] =
     (if \<forall>u\<in>set ?q. \<not> isLineTerminator u then Some (11 + length ?ty + 8 + length ?q, [?ty, ?q]) else None)"
    by (rule run_tail)
  have total: "11 + length ?ty + 8 + length ?q = length s"
    if p: "prefix (str ''data:image/'') s" and m: "prefix (str '';base64,'') (dropWhile isWordChar ?r)"
  proof -
    have "length (str ''data:image/'') \<le> length s" using p by (rule prefix_length_le)
    then have a: "11 \<le> length s" by (simp add: str_def)
    have "length (str '';base64,'') \<le> length (dropWhile isWordChar ?r)" using m by (rule prefix_length_le)
    then have b: "8 \<le> length (dropWhile isWordChar ?r)" by (simp add: str_def)
    have "length ?ty + length (dropWhile isWordChar ?r) = length ?r"
      by (metis length_append takeWhile_dropWhile_id)
    then show ?thesis using a b by simp
  qed
  show ?thesis
  proof (cases "prefix (str ''data:image/'') s
         \<and> ?ty \<noteq> []
         \<and> prefix (str '';base64,'') (dropWhile isWordChar ?r)
         \<and> (\<forall>u\<in>set ?q. \<not> isLineTerminator u)")
    case True
    then have p: "prefix (str ''data:image/'') s"
      and t: "?ty \<noteq> []"
      and m: "prefix (str '';base64,'') (dropWhile isWordChar ?r)"
      and a: "\<forall>u\<in>set ?q. \<not> isLineTerminator u"
      by blast+
    have "run (lits ''data:image/'' @ ([GroupOpen, Plus WordChar, GroupClose] @ lits '';base64,'' @ ?tail)) 0 s [] []
       = run ([GroupOpen, Plus WordChar, GroupClose] @ lits '';base64,'' @ ?tail) 11 ?r [] []"
      using p by (simp only: r1 if_True)
    also have "\<dots> = run ?tail (11 + length ?ty + 8) ?q [] [?ty]"
      using t m by (simp only: r2) simp
    also have "\<dots> = Some (11 + length ?ty + 8 + length ?q, [?ty, ?q])"
      using a by (simp only: r3) simp
    also have "\<dots> = Some (length s, [?ty, ?q])"
      using total [OF p m] by simp
    finally show ?thesis using True by (simp only: re js_match_Bol) simp
  next
    case False
    then have "run (lits ''data:image/'' @ ([GroupOpen, Plus WordChar, GroupClose] @ lits '';base64,'' @ ?tail)) 0 s [] []
       = None"
      by (simp only: r1 r2 r3) auto
    then show ?thesis using False by (simp only: re js_match_Bol) simp
  qed
qed


lemma length_str_prefix: "length (str ''data:image/'') = 11"
  by (simp add: str_def)

lemma length_str_mid: "length (str '';base64,'') = 8"
  by (simp add: str_def)

lemma takeWhile_type:
  assumes "\<forall>u\<in>set ty. isWordChar u"
  shows "takeWhile isWordChar (ty @ str '';base64,'' @ payload) = ty"
    and "dropWhile isWordChar (ty @ str '';base64,'' @ payload) = str '';base64,'' @ payload"
proof -
  have hd: "str '';base64,'' @ payload = of_char CHR '';'' # (str ''base64,'' @ payload)"
    by (simp add: str_def)
  have t: "takeWhile isWordChar (str '';base64,'' @ payload) = []"
    unfolding hd using not_word_semicolon by simp
  have d: "dropWhile isWordChar (str '';base64,'' @ payload) = str '';base64,'' @ payload"
    unfolding hd using not_word_semicolon by simp
  show "takeWhile isWordChar (ty @ str '';base64,'' @ payload) = ty"
    using assms by (simp add: takeWhile_append2 t)
  show "dropWhile isWordChar (ty @ str '';base64,'' @ payload) = str '';base64,'' @ payload"
    using assms by (simp add: dropWhile_append2 d)
qed

lemma js_match_of_shape:
  assumes "ty \<noteq> []" and "\<forall>u\<in>set ty. isWordChar u" and "\<forall>u\<in>set payload. \<not> isLineTerminator u"
  shows "js_match data_uri_regex (str ''data:image/'' @ ty @ str '';base64,'' @ payload)
           = Some [str ''data:image/'' @ ty @ str '';base64,'' @ payload, ty, payload]"
proof -
  let ?s = "str ''data:image/'' @ ty @ str '';base64,'' @ payload"
  have r: "drop 11 ?s = ty @ str '';base64,'' @ payload"
    using length_str_prefix by simp
  have q: "drop 8 (str '';base64,'' @ payload) = payload"
    using length_str_mid by simp
  show ?thesis
    using assms by (simp only: js_match_data_uri r takeWhile_type q) simp
qed

lemma js_match_Some_shape:
  assumes "js_match data_uri_regex s = Some m"
  shows "\<exists>ty payload. s = str ''data:image/'' @ ty @ str '';base64,'' @ payload
        \<and> ty \<noteq> [] \<and> (\<forall>u\<in>set ty. isWordChar u)
        \<and> (\<forall>u\<in>set payload. \<not> isLineTerminator u) \<and> m = [s, ty, payload]"
proof -
  let ?r = "drop 11 s"
  let ?ty = "takeWhile isWordChar ?r"
  let ?q = "drop 8 (dropWhile isWordChar ?r)"
  have c: "prefix (str ''data:image/'') s \<and> ?ty \<noteq> []
         \<and> prefix (str '';base64,'') (dropWhile isWordChar ?r)
         \<and> (\<forall>u\<in>set ?q. \<not> isLineTerminator u)"
  proof (rule ccontr)
    assume "\<not> ?thesis"
    then have "js_match data_uri_regex s = None"
      by (simp only: js_match_data_uri if_False)
    then show False using assms by simp
  qed
  then have "js_match data_uri_regex s = Some [s, ?ty, ?q]"
    by (subst js_match_data_uri) (rule if_P)
  then have m: "m = [s, ?ty, ?q]"
    using assms by simp
  have "s = str ''data:image/'' @ drop (length (str ''data:image/'')) s"
    using c by (metis prefix_def append_eq_conv_conj)
  then have s1: "s = str ''data:image/'' @ ?r" by (simp only: length_str_prefix)
  have "dropWhile isWordChar ?r = str '';base64,'' @ drop (length (str '';base64,'')) (dropWhile isWordChar ?r)"
    using c by (metis prefix_def append_eq_conv_conj)
  then have s2: "dropWhile isWordChar ?r = str '';base64,'' @ ?q" by (simp only: length_str_mid)
  have "?r = ?ty @ dropWhile isWordChar ?r" by simp
  then have s3: "?r = ?ty @ str '';base64,'' @ ?q" using s2 by simp
  have s4: "s = str ''data:image/'' @ ?ty @ str '';base64,'' @ ?q"
    using s1 s3 by simp
  have w: "\<forall>u\<in>set ?ty. isWordChar u"
    by (auto dest: set_takeWhileD)
  show ?thesis
    using s4 c w m by blast
qed

lemma js_match_None_iff: "js_match data_uri_regex s = None \<longleftrightarrow> \<not> data_uri_shape s"
proof
  assume n: "js_match data_uri_regex s = None"
  show "\<not> data_uri_shape s"
  proof
    assume "data_uri_shape s"
    then obtain ty payload where "s = str ''data:image/'' @ ty @ str '';base64,'' @ payload"
        "ty \<noteq> []" "\<forall>u\<in>set ty. isWordChar u" "\<forall>u\<in>set payload. \<not> isLineTerminator u"
      unfolding data_uri_shape_def by blast
    then have "js_match data_uri_regex s \<noteq> None"
      using js_match_of_shape [of ty payload] by simp
    then show False using n by simp
  qed
next
  assume ns: "\<not> data_uri_shape s"
  show "js_match data_uri_regex s = None"
  proof (cases "js_match data_uri_regex s")
    case None
    then show ?thesis .
  next
    case (Some m)
    then have "data_uri_shape s"
      unfolding data_uri_shape_def using js_match_Some_shape [of s m] by blast
    then show ?thesis using ns by simp
  qed
qed

lemma base64ToBuffer_error_iff:
  "base64ToBuffer env s = Inl e \<longleftrightarrow> e = Error ''Invalid base64 image data'' \<and> \<not> data_uri_shape s"
  unfolding js_match_None_iff [symmetric]
  by (auto simp: base64ToBuffer_def split: option.splits)

lemma base64ToBuffer_of_shape:
  assumes "ty \<noteq> []" and "\<forall>u\<in>set ty. isWordChar u" and "\<forall>u\<in>set payload. \<not> isLineTerminator u"
  shows "base64ToBuffer env (str ''data:image/'' @ ty @ str '';base64,'' @ payload)
           = Inr (Buffer_from env payload)"
  using js_match_of_shape [OF assms] by (simp add: base64ToBuffer_def)

section \<open>The pipeline\<close>

lemma cropStore_fails_iff:
  "(\<exists>e. fst (cropStore env buf d b w) = Inl e) \<longleftrightarrow>
     (\<exists>e w1. sharp_extract env buf (cropRegion b d) w = (Inl e, w1))
     \<or> (\<exists>c w1 cid w2 e w3. sharp_extract env buf (cropRegion b d) w = (Inr c, w1)
           \<and> nanoid env w1 = (cid, w2)
           \<and> storagePut env (str ''wine-crops/'' @ cid @ str ''.png'') c (str ''image/png'') w2
               = (Inl e, w3))"
  by (auto simp: cropStore_def split: prod.splits sum.splits)

lemma length_stepOutcomes: "length (stepOutcomes env buf d bs w) = length bs"
  by (induction bs arbitrary: w) (auto split: prod.splits)

lemma processLabel_cropStore:
  assumes "processLabel env buf d b acc st = (acc', st')"
  shows "world st' = snd (cropStore env buf d b (world st))
    \<and> (case fst (cropStore env buf d b (world st)) of
          Inl e \<Rightarrow> acc' = acc \<and> labelFailures (trace st') = Suc (labelFailures (trace st))
        | Inr c \<Rightarrow>
            acc' = (fst acc @ [\<lparr>id_crop = fst c, url = snd c, bbox = bbox_of b\<rparr>],
                    snd acc @ [bbox_of b])
            \<and> labelFailures (trace st') = labelFailures (trace st))"
  using assms
  by (auto simp: processLabel_def cropStore_def cropImageSharp_def call_def emit_def
        labelFailures_def split: prod.splits sum.splits)

lemma processLabels_outcomes:
  assumes "processLabels env buf d bs acc st = (acc', st')"
  shows "acc' = (fst acc @ keptCrops bs (stepOutcomes env buf d bs (world st)),
                 snd acc @ map bbox (keptCrops bs (stepOutcomes env buf d bs (world st))))
    \<and> labelFailures (trace st')
        = labelFailures (trace st) + length (filter isl (stepOutcomes env buf d bs (world st)))"
  using assms
proof (induction bs arbitrary: acc st)
  case Nil
  then show ?case by auto
next
  case (Cons b bs)
  obtain acc1 st1 where step: "processLabel env buf d b acc st = (acc1, st1)"
    by (cases "processLabel env buf d b acc st")
  with Cons.prems have rest: "processLabels env buf d bs acc1 st1 = (acc', st')"
    by simp
  obtain r w1 where cs: "cropStore env buf d b (world st) = (r, w1)"
    by (cases "cropStore env buf d b (world st)")
  have w: "world st1 = w1"
    using processLabel_cropStore [OF step] cs by simp
  have outs: "stepOutcomes env buf d (b # bs) (world st) = r # stepOutcomes env buf d bs (world st1)"
    using cs w by simp
  note IH = Cons.IH [OF rest]
  show ?case
  proof (cases r)
    case (Inl e)
    then have "acc1 = acc" "labelFailures (trace st1) = Suc (labelFailures (trace st))"
      using processLabel_cropStore [OF step] cs by simp_all
    then show ?thesis using IH Inl by (simp add: outs del: stepOutcomes.simps)
  next
    case (Inr c)
    then have "acc1 = (fst acc @ [\<lparr>id_crop = fst c, url = snd c, bbox = bbox_of b\<rparr>],
                    snd acc @ [bbox_of b])"
        "labelFailures (trace st1) = labelFailures (trace st)"
      using processLabel_cropStore [OF step] cs by simp_all
    then show ?thesis using IH Inr by (cases c) (simp add: outs del: stepOutcomes.simps)
  qed
qed

lemma keptCrops_all_ok:
  assumes "length outs = length bs"
      and "\<forall>j<length bs. \<exists>c. outs ! j = Inr c"
  shows "map bbox (keptCrops bs outs) = map bbox_of bs"
  using assms
proof (induction bs arbitrary: outs)
  case Nil
  then show ?case by simp
next
  case (Cons b bs)
  then obtain o1 os where o: "outs = o1 # os" by (cases outs) auto
  from Cons.prems(2) o obtain c where c: "o1 = Inr c" by fastforce
  have "\<forall>j<length bs. \<exists>c. os ! j = Inr c"
    using Cons.prems(2) o by fastforce
  then have "map bbox (keptCrops bs os) = map bbox_of bs"
    using Cons.IH [of os] Cons.prems(1) o by simp
  then show ?case using o c by (cases c) simp
qed

lemma keptCrops_one_failure:
  assumes "length outs = length bs" and "k < length bs"
      and "outs ! k = Inl e"
      and "\<forall>j<length bs. j \<noteq> k \<longrightarrow> (\<exists>c. outs ! j = Inr c)"
  shows "map bbox (keptCrops bs outs) = map bbox_of (take k bs @ drop (Suc k) bs)"
  using assms
proof (induction bs arbitrary: outs k)
  case Nil
  then show ?case by simp
next
  case (Cons b bs)
  then obtain o1 os where o: "outs = o1 # os" by (cases outs) auto
  have len: "length os = length bs" using Cons.prems(1) o by simp
  show ?case
  proof (cases k)
    case 0
    then have f: "o1 = Inl e" using Cons.prems(3) o by simp
    have "\<forall>j<length bs. \<exists>c. os ! j = Inr c"
    proof (intro allI impI)
      fix j assume "j < length bs"
      then have "Suc j < length (b # bs)" "Suc j \<noteq> k" using 0 by simp_all
      then obtain c where "outs ! Suc j = Inr c" using Cons.prems(4) by blast
      then show "\<exists>c. os ! j = Inr c" using o by simp
    qed
    then have "map bbox (keptCrops bs os) = map bbox_of bs"
      using keptCrops_all_ok [OF len] by simp
    then show ?thesis using o f 0 by simp
  next
    case (Suc k')
    have "0 < length (b # bs)" "0 \<noteq> k" using Suc by simp_all
    then obtain c where "outs ! 0 = Inr c" using Cons.prems(4) by blast
    then have c: "o1 = Inr c" using o by simp
    have k': "k' < length bs" using Cons.prems(2) Suc by simp
    have f: "os ! k' = Inl e" using Cons.prems(3) o Suc by simp
    have others: "\<forall>j<length bs. j \<noteq> k' \<longrightarrow> (\<exists>c. os ! j = Inr c)"
    proof (intro allI impI)
      fix j assume "j < length bs" "j \<noteq> k'"
      then have "Suc j < length (b # bs)" "Suc j \<noteq> k" using Suc by simp_all
      then obtain c where "outs ! Suc j = Inr c" using Cons.prems(4) by blast
      then show "\<exists>c. os ! j = Inr c" using o by simp
    qed
    have "map bbox (keptCrops bs os) = map bbox_of (take k' bs @ drop (Suc k') bs)"
      using Cons.IH [OF len k' f others] .
    then show ?thesis using o c Suc by (cases c) simp
  qed
qed

lemma filter_isl_one_failure:
  assumes "length outs = n" and "k < n"
      and "outs ! k = Inl e"
      and "\<forall>j<n. j \<noteq> k \<longrightarrow> (\<exists>c. outs ! j = Inr c)"
  shows "length (filter isl outs) = 1"
proof -
  have "filter isl outs = filter isl (take k outs) @ filter isl (outs ! k # drop (Suc k) outs)"
    using assms(1,2) by (metis append_take_drop_id filter_append Cons_nth_drop_Suc)
  moreover have "filter isl (take k outs) = []"
  proof -
    have "\<forall>x\<in>set (take k outs). \<not> isl x"
    proof
      fix x assume "x \<in> set (take k outs)"
      then obtain j where j: "j < length (take k outs)" "take k outs ! j = x"
        by (metis in_set_conv_nth)
      then have "j < n" "j \<noteq> k" "outs ! j = x" using assms(1,2) by simp_all
      then show "\<not> isl x" using assms(4) by auto
    qed
    then show ?thesis by (simp add: filter_empty_conv)
  qed
  moreover have "filter isl (drop (Suc k) outs) = []"
  proof -
    have "\<forall>x\<in>set (drop (Suc k) outs). \<not> isl x"
    proof
      fix x assume "x \<in> set (drop (Suc k) outs)"
      then obtain j where j: "j < length (drop (Suc k) outs)" "drop (Suc k) outs ! j = x"
        by (metis in_set_conv_nth)
      then have "Suc k + j < n" "Suc k + j \<noteq> k" "outs ! (Suc k + j) = x"
        using assms(1,2) by simp_all
      then show "\<not> isl x" using assms(4) by auto
    qed
    then show ?thesis by (simp add: filter_empty_conv)
  qed
  ultimately show ?thesis using assms(3) by simp
qed

lemma detect_labelFailures:
  "detectWineLabels env s st = (r, st1) \<Longrightarrow> labelFailures (trace st1) = labelFailures (trace st)"
  by (auto simp: detectWineLabels_def call_def emit_def labelFailures_def
           split: prod.splits sum.splits option.splits msg_content.splits json.splits if_splits)

lemma dims_labelFailures:
  "getImageDimensions env buf st = (r, st1) \<Longrightarrow> labelFailures (trace st1) = labelFailures (trace st)"
  by (auto simp: getImageDimensions_def call_def labelFailures_def
           split: prod.splits sum.splits)

lemma processWineImage_loop:
  assumes "base64ToBuffer env s = Inr buf"
      and "detectWineLabels env s st = (Inr boxes, st1)"
      and "boxes \<noteq> []"
      and "getImageDimensions env buf st1 = (Inr d, st2)"
  shows "processWineImage env s st =
           (case processLabels env buf d boxes ([], []) st2 of
              ((cs, bs), st3) \<Rightarrow> (Inr \<lparr>crops = cs, bboxes = bs\<rparr>, st3))"
  using assms
  by (simp add: processWineImage_def processWineImage_try_def split: prod.splits)

lemma processLabel_trace:
  "\<exists>acc' st' evs. processLabel env buf d b acc st = (acc', st')
      \<and> trace st' = trace st @ EExtract buf (cropRegion b d) # evs"
  by (auto simp: processLabel_def cropImageSharp_def call_def emit_def
           split: prod.splits sum.splits)

lemma processLabels_trace:
  assumes "processLabels env buf d bs acc st = (acc', st')"
  shows "\<exists>evs. trace st' = trace st @ evs \<and> (\<forall>b\<in>set bs. EExtract buf (cropRegion b d) \<in> set evs)"
  using assms
proof (induction bs arbitrary: acc st)
  case Nil
  then show ?case by simp
next
  case (Cons b bs)
  from processLabel_trace [of env buf d b acc st]
  obtain acc1 st1 evs1 where step: "processLabel env buf d b acc st = (acc1, st1)"
      and tr1: "trace st1 = trace st @ EExtract buf (cropRegion b d) # evs1"
    by blast
  with Cons.prems have rest: "processLabels env buf d bs acc1 st1 = (acc', st')"
    by simp
  from Cons.IH [OF rest] obtain evs where
      tr: "trace st' = trace st1 @ evs" and
      all: "\<forall>b\<in>set bs. EExtract buf (cropRegion b d) \<in> set evs"
    by blast
  have "trace st' = trace st @ (EExtract buf (cropRegion b d) # evs1 @ evs)"
    using tr tr1 by simp
  moreover have "\<forall>x\<in>set (b # bs). EExtract buf (cropRegion x d) \<in> set (EExtract buf (cropRegion b d) # evs1 @ evs)"
    using all by auto
  ultimately show ?case by blast
qed

lemma detect_parsed_array:
  assumes "invokeLLM env s (world st) = (Inr resp, w')"
      and "choices resp = Some cs" and "first_content cs = Text t" and "t \<noteq> []"
      and "JSON_parse env t = Some (JArray xs)"
  shows "detectWineLabels env s st = (Inr xs, \<lparr>world = w', trace = trace st @ [EInvokeLLM s]\<rparr>)"
  using assms by (simp add: detectWineLabels_def call_def)


section \<open>The pipeline on the concrete environment\<close>

lemma demo_uri_buffer:
  "base64ToBuffer (demo_env r p m) demo_uri = Inr [65, 65, 65, 65]"
proof -
  have s: "demo_uri = str ''data:image/'' @ str ''png'' @ str '';base64,'' @ str ''AAAA''"
    by (simp add: demo_uri_def str_def)
  show ?thesis
    unfolding s
    by (subst base64ToBuffer_of_shape)
       (simp_all add: str_def isWordChar_def isLineTerminator_def demo_env_def)
qed

lemma demo_detect:
  "detectWineLabels demo_E demo_uri st0
     = (Inr demo_boxes, \<lparr>world = 1, trace = [EInvokeLLM demo_uri]\<rparr>)"
  by (simp add: detectWineLabels_def call_def demo_E_def demo_env_def text_response_def
        first_content_def demo_parse_def st0_def str_def)

lemma demo_dims:
  "getImageDimensions demo_E [65, 65, 65, 65] \<lparr>world = 1, trace = [EInvokeLLM demo_uri]\<rparr>
     = (Inr \<lparr>width = 1000, height = 1000\<rparr>,
        \<lparr>world = 2, trace = [EInvokeLLM demo_uri, EMetadata [65, 65, 65, 65]]\<rparr>)"
  by (simp add: getImageDimensions_def call_def demo_E_def demo_env_def or_default_def)

lemma demo_loop:
  "processLabels demo_E [65, 65, 65, 65] \<lparr>width = 1000, height = 1000\<rparr> demo_boxes ([], [])
      \<lparr>world = 2, trace = [EInvokeLLM demo_uri, EMetadata [65, 65, 65, 65]]\<rparr>
   = (([\<lparr>id_crop = [3], url = str ''https://cdn/wine-crops/'' @ [3] @ str ''.png'',
          bbox = (100, 200, 500, 700)\<rparr>,
        \<lparr>id_crop = [7], url = str ''https://cdn/wine-crops/'' @ [7] @ str ''.png'',
          bbox = (- 50, - 20, 1200, 1500)\<rparr>],
       [(100, 200, 500, 700), (- 50, - 20, 1200, 1500)]),
      \<lparr>world = 9, trace =
        [EInvokeLLM demo_uri, EMetadata [65, 65, 65, 65],
         EExtract [65, 65, 65, 65] \<lparr>left_r = 175, top_r = 80, width_r = 550, height_r = 440\<rparr>,
         ENanoid,
         EStoragePut (str ''wine-crops/'' @ [3] @ str ''.png'') [65, 65, 65, 65] (str ''image/png''),
         EExtract [65, 65, 65, 65] \<lparr>left_r = 899, top_r = 80, width_r = - 798, height_r = 440\<rparr>,
         EConsoleError ''Failed to process individual label:'',
         EExtract [65, 65, 65, 65] \<lparr>left_r = 0, top_r = 0, width_r = 1000, height_r = 1000\<rparr>,
         ENanoid,
         EStoragePut (str ''wine-crops/'' @ [7] @ str ''.png'') [65, 65, 65, 65] (str ''image/png'')]\<rparr>)"
  by (simp add: demo_boxes_def processLabel_def cropImageSharp_def call_def emit_def
        demo_E_def demo_env_def demo_extract_def mapping_defs bbox_of_def str_def)

lemma demo_run:
  "processWineImage demo_E demo_uri st0
   = (Inr \<lparr>crops =
        [\<lparr>id_crop = [3], url = str ''https://cdn/wine-crops/'' @ [3] @ str ''.png'',
          bbox = (100, 200, 500, 700)\<rparr>,
        \<lparr>id_crop = [7], url = str ''https://cdn/wine-crops/'' @ [7] @ str ''.png'',
          bbox = (- 50, - 20, 1200, 1500)\<rparr>],
       bboxes = [(100, 200, 500, 700), (- 50, - 20, 1200, 1500)]\<rparr>,
      \<lparr>world = 9, trace =
        [EInvokeLLM demo_uri, EMetadata [65, 65, 65, 65],
         EExtract [65, 65, 65, 65] \<lparr>left_r = 175, top_r = 80, width_r = 550, height_r = 440\<rparr>,
         ENanoid,
         EStoragePut (str ''wine-crops/'' @ [3] @ str ''.png'') [65, 65, 65, 65] (str ''image/png''),
         EExtract [65, 65, 65, 65] \<lparr>left_r = 899, top_r = 80, width_r = - 798, height_r = 440\<rparr>,
         EConsoleError ''Failed to process individual label:'',
         EExtract [65, 65, 65, 65] \<lparr>left_r = 0, top_r = 0, width_r = 1000, height_r = 1000\<rparr>,
         ENanoid,
         EStoragePut (str ''wine-crops/'' @ [7] @ str ''.png'') [65, 65, 65, 65] (str ''image/png'')]\<rparr>)"
proof -
  have ne: "demo_boxes \<noteq> []" by (simp add: demo_boxes_def)
  have b: "base64ToBuffer demo_E demo_uri = Inr [65, 65, 65, 65]"
    unfolding demo_E_def by (rule demo_uri_buffer)
  show ?thesis
    by (simp only: processWineImage_loop [OF b demo_detect ne demo_dims] demo_loop prod.case)
qed

lemma demo_outcomes:
  "stepOutcomes demo_E [65, 65, 65, 65] \<lparr>width = 1000, height = 1000\<rparr> demo_boxes 2
     = [Inr ([3], str ''https://cdn/wine-crops/'' @ [3] @ str ''.png''),
        Inl (Error ''extract_area: bad extract area''),
        Inr ([7], str ''https://cdn/wine-crops/'' @ [7] @ str ''.png'')]"
  by (simp add: demo_boxes_def cropStore_def demo_E_def demo_env_def demo_extract_def
        mapping_defs str_def)

section \<open>Claims about the input check\<close>

text \<open>
  Claim C9. \<^verbatim>\<open>base64ToBuffer\<close> throws \<^verbatim>\<open>"Invalid base64 image data"\<close> exactly when the
  input does not match the pattern, which is exactly when it does not have the shape
  \<^verbatim>\<open>data:image/<type>;base64,<payload>\<close>; otherwise it returns a buffer. A data URI with
  an empty payload is accepted; the media type \<^verbatim>\<open>svg+xml\<close> is rejected.
\<close>

theorem base64ToBuffer_rejects_iff_no_match:
  "(base64ToBuffer env s = Inl (Error ''Invalid base64 image data''))
     = (js_match data_uri_regex s = None)
   \<and> (js_match data_uri_regex s = None) = (\<not> data_uri_shape s)
   \<and> (\<exists>b. base64ToBuffer env s = Inr b) = (js_match data_uri_regex s \<noteq> None)
   \<and> base64ToBuffer env (str ''data:image/png;base64,'') = Inr (Buffer_from env [])
   \<and> base64ToBuffer env (str ''data:image/svg+xml;base64,AAAA'')
       = Inl (Error ''Invalid base64 image data'')"
proof (intro conjI)
  show "(base64ToBuffer env s = Inl (Error ''Invalid base64 image data''))
     = (js_match data_uri_regex s = None)"
    by (simp add: base64ToBuffer_def split: option.splits)
  show "(js_match data_uri_regex s = None) = (\<not> data_uri_shape s)"
    by (rule js_match_None_iff)
  show "(\<exists>b. base64ToBuffer env s = Inr b) = (js_match data_uri_regex s \<noteq> None)"
    by (simp add: base64ToBuffer_def split: option.splits)
  have "str ''data:image/png;base64,'' = str ''data:image/'' @ str ''png'' @ str '';base64,'' @ []"
    by (simp add: str_def)
  then show "base64ToBuffer env (str ''data:image/png;base64,'') = Inr (Buffer_from env [])"
    using base64ToBuffer_of_shape [of "str ''png''" "[]" env]
    by (simp add: str_def isWordChar_def)
  have "js_match data_uri_regex (str ''data:image/svg+xml;base64,AAAA'') = None"
    by (simp add: js_match_data_uri str_def isWordChar_def)
  then show "base64ToBuffer env (str ''data:image/svg+xml;base64,AAAA'')
       = Inl (Error ''Invalid base64 image data'')"
    by (simp add: base64ToBuffer_def)
qed

theorem base64ToBuffer_rejects_iff_no_match_witness:
  "base64ToBuffer demo_E demo_uri = Inr [65, 65, 65, 65]
   \<and> js_match data_uri_regex demo_uri \<noteq> None \<and> data_uri_shape demo_uri"
proof -
  have b: "base64ToBuffer demo_E demo_uri = Inr [65, 65, 65, 65]"
    unfolding demo_E_def by (rule demo_uri_buffer)
  from base64ToBuffer_rejects_iff_no_match [of demo_E demo_uri]
  have m: "(\<exists>b. base64ToBuffer demo_E demo_uri = Inr b) = (js_match data_uri_regex demo_uri \<noteq> None)"
    and sh: "(js_match data_uri_regex demo_uri = None) = (\<not> data_uri_shape demo_uri)"
    by blast+
  have "js_match data_uri_regex demo_uri \<noteq> None"
    using m b by simp
  then show ?thesis
    using sh b by simp
qed

text \<open>
  Claim C6. On an input that does not have the shape of an image data URI,
  \<^verbatim>\<open>processWineImage\<close> throws the error of \<^verbatim>\<open>base64ToBuffer\<close>. The world is as it was
  and the only event is the line the outer \<^verbatim>\<open>catch\<close> logs: the detector is not
  invoked, nothing is cropped and nothing is stored.
\<close>

theorem malformed_input_fails_first:
  assumes "\<not> data_uri_shape s"
  shows "processWineImage env s st =
           (Inl (Error ''Invalid base64 image data''),
            st\<lparr>trace := trace st @ [EConsoleError ''Failed to process wine image:'']\<rparr>)"
proof -
  have "base64ToBuffer env s = Inl (Error ''Invalid base64 image data'')"
    using assms by (simp add: base64ToBuffer_error_iff)
  then show ?thesis
    by (simp add: processWineImage_def processWineImage_try_def emit_def)
qed

theorem malformed_input_fails_first_witness:
  "\<not> data_uri_shape (str ''image/png;base64,AAAA'')
   \<and> processWineImage demo_E (str ''image/png;base64,AAAA'') st0 =
       (Inl (Error ''Invalid base64 image data''),
        \<lparr>world = 0, trace = [EConsoleError ''Failed to process wine image:'']\<rparr>)"
proof -
  have "js_match data_uri_regex (str ''image/png;base64,AAAA'') = None"
    by (simp add: js_match_data_uri str_def)
  then have n: "\<not> data_uri_shape (str ''image/png;base64,AAAA'')"
    using js_match_None_iff by blast
  show ?thesis
    using n malformed_input_fails_first [OF n, of demo_E st0] by (simp add: st0_def)
qed

section \<open>Claims about the detector\<close>

text \<open>
  Claim C5. When the response has no content, or content that is not a string, or a string
  that \<^verbatim>\<open>JSON.parse\<close> rejects or parses to something that is not an array,
  \<^verbatim>\<open>detectWineLabels\<close> returns the empty sequence, and \<^verbatim>\<open>processWineImage\<close> (on a
  well-formed data URI) returns \<^verbatim>\<open>{crops: [], bboxes: []}\<close> as a result, not an error. The
  events of the call are the request to the model and at most log lines of the parse
  failure: the dimensions are not read, nothing is cropped, nothing is stored.
\<close>

theorem unparsable_response_yields_empty:
  assumes "base64ToBuffer env s = Inr buf"
      and "invokeLLM env s (world st) = (Inr resp, w')"
      and "choices resp = None
           \<or> (\<exists>cs. choices resp = Some cs
                 \<and> (first_content cs = Missing \<or> first_content cs = NotString
                     \<or> (\<exists>t. first_content cs = Text t
                           \<and> (JSON_parse env t = None \<or> JSON_parse env t = Some JOther))))"
  shows "\<exists>st'. detectWineLabels env s st = (Inr [], st')
           \<and> processWineImage env s st = (Inr \<lparr>crops = [], bboxes = []\<rparr>, st')
           \<and> world st' = w'
           \<and> (\<exists>log. trace st' = trace st @ EInvokeLLM s # log
                  \<and> set log \<subseteq> {EConsoleError ''Failed to parse LLM response:''})"
proof -
  have det: "\<exists>st'. detectWineLabels env s st = (Inr [], st') \<and> world st' = w'
           \<and> (\<exists>log. trace st' = trace st @ EInvokeLLM s # log
                  \<and> set log \<subseteq> {EConsoleError ''Failed to parse LLM response:''})"
    using assms(2,3)
    by (auto simp: detectWineLabels_def call_def emit_def)
  then obtain st' where d: "detectWineLabels env s st = (Inr [], st')" and w: "world st' = w'"
      and l: "\<exists>log. trace st' = trace st @ EInvokeLLM s # log
                  \<and> set log \<subseteq> {EConsoleError ''Failed to parse LLM response:''}"
    by blast
  have "processWineImage env s st = (Inr \<lparr>crops = [], bboxes = []\<rparr>, st')"
    using assms(1) d by (simp add: processWineImage_def processWineImage_try_def)
  then show ?thesis using d w l by blast
qed

theorem unparsable_response_yields_empty_witness:
  "base64ToBuffer demo_E_text demo_uri = Inr [65, 65, 65, 65]
   \<and> invokeLLM demo_E_text demo_uri (world st0)
       = (Inr (text_response (str ''no labels found'')), 1)
   \<and> choices (text_response (str ''no labels found''))
       = Some [\<lparr>message = Some \<lparr>content = Text (str ''no labels found'')\<rparr>\<rparr>]
   \<and> first_content [\<lparr>message = Some \<lparr>content = Text (str ''no labels found'')\<rparr>\<rparr>]
       = Text (str ''no labels found'')
   \<and> JSON_parse demo_E_text (str ''no labels found'') = None
   \<and> (\<exists>st'. detectWineLabels demo_E_text demo_uri st0 = (Inr [], st')
           \<and> processWineImage demo_E_text demo_uri st0 = (Inr \<lparr>crops = [], bboxes = []\<rparr>, st')
           \<and> world st' = 1
           \<and> (\<exists>log. trace st' = trace st0 @ EInvokeLLM demo_uri # log
                  \<and> set log \<subseteq> {EConsoleError ''Failed to parse LLM response:''}))"
proof -
  have h1: "base64ToBuffer demo_E_text demo_uri = Inr [65, 65, 65, 65]"
    unfolding demo_E_text_def by (rule demo_uri_buffer)
  have h2: "invokeLLM demo_E_text demo_uri (world st0)
       = (Inr (text_response (str ''no labels found'')), 1)"
    by (simp add: demo_E_text_def demo_env_def st0_def)
  have c: "choices (text_response (str ''no labels found''))
       = Some [\<lparr>message = Some \<lparr>content = Text (str ''no labels found'')\<rparr>\<rparr>]"
    by (simp add: text_response_def)
  have f: "first_content [\<lparr>message = Some \<lparr>content = Text (str ''no labels found'')\<rparr>\<rparr>]
       = Text (str ''no labels found'')"
    by (simp add: first_content_def)
  have p: "JSON_parse demo_E_text (str ''no labels found'') = None"
    by (simp add: demo_E_text_def demo_env_def demo_parse_def str_def)
  have h3: "choices (text_response (str ''no labels found'')) = None
           \<or> (\<exists>cs. choices (text_response (str ''no labels found'')) = Some cs
                 \<and> (first_content cs = Missing \<or> first_content cs = NotString
                     \<or> (\<exists>t. first_content cs = Text t
                           \<and> (JSON_parse demo_E_text t = None
                               \<or> JSON_parse demo_E_text t = Some JOther))))"
    using c f p by simp
  show ?thesis
    using unparsable_response_yields_empty [OF h1 h2 h3] h1 h2 c f p by simp
qed

text \<open>
  Claim C10. When the content is a string that parses to an array, \<^verbatim>\<open>detectWineLabels\<close>
  returns the array as it is, whatever the coordinates of its boxes (an empty string never
  parses to an array, and the code does not hand it to \<^verbatim>\<open>JSON.parse\<close>). Every box of
  the array then reaches the mapping and \<^verbatim>\<open>extract\<close>: the trace of the call holds the
  extraction of its region.
\<close>

theorem parsed_array_returned_verbatim:
  assumes "invokeLLM env s (world st) = (Inr resp, w')"
      and "choices resp = Some cs" and "first_content cs = Text t" and "t \<noteq> []"
      and "JSON_parse env t = Some (JArray xs)"
  shows "detectWineLabels env s st = (Inr xs, \<lparr>world = w', trace = trace st @ [EInvokeLLM s]\<rparr>)
    \<and> (\<forall>buf d st2 r st'.
          base64ToBuffer env s = Inr buf
          \<and> getImageDimensions env buf \<lparr>world = w', trace = trace st @ [EInvokeLLM s]\<rparr>
              = (Inr d, st2)
          \<and> processWineImage env s st = (r, st')
          \<longrightarrow> (\<forall>b\<in>set xs. EExtract buf (cropRegion b d) \<in> set (trace st')))"
proof (intro conjI allI impI)
  show det: "detectWineLabels env s st
               = (Inr xs, \<lparr>world = w', trace = trace st @ [EInvokeLLM s]\<rparr>)"
    using assms by (rule detect_parsed_array)
  fix buf d st2 r st'
  assume h: "base64ToBuffer env s = Inr buf
          \<and> getImageDimensions env buf \<lparr>world = w', trace = trace st @ [EInvokeLLM s]\<rparr>
              = (Inr d, st2)
          \<and> processWineImage env s st = (r, st')"
  show "\<forall>b\<in>set xs. EExtract buf (cropRegion b d) \<in> set (trace st')"
  proof (cases "xs = []")
    case True
    then show ?thesis by simp
  next
    case False
    obtain cs' bs' st3 where loop: "processLabels env buf d xs ([], []) st2 = ((cs', bs'), st3)"
      by (metis prod.exhaust)
    have "processWineImage env s st = (Inr \<lparr>crops = cs', bboxes = bs'\<rparr>, st3)"
      using processWineImage_loop [of env s buf st xs _ d st2] h det False loop by simp
    then have "st' = st3" using h by simp
    then show ?thesis using processLabels_trace [OF loop] by auto
  qed
qed

theorem parsed_array_returned_verbatim_witness:
  "invokeLLM demo_E demo_uri (world st0) = (Inr (text_response (str ''[b1,b2,b3]'')), 1)
   \<and> choices (text_response (str ''[b1,b2,b3]''))
       = Some [\<lparr>message = Some \<lparr>content = Text (str ''[b1,b2,b3]'')\<rparr>\<rparr>]
   \<and> first_content [\<lparr>message = Some \<lparr>content = Text (str ''[b1,b2,b3]'')\<rparr>\<rparr>]
       = Text (str ''[b1,b2,b3]'')
   \<and> str ''[b1,b2,b3]'' \<noteq> []
   \<and> JSON_parse demo_E (str ''[b1,b2,b3]'') = Some (JArray demo_boxes)
   \<and> detectWineLabels demo_E demo_uri st0
       = (Inr demo_boxes, \<lparr>world = 1, trace = trace st0 @ [EInvokeLLM demo_uri]\<rparr>)
   \<and> EExtract [65, 65, 65, 65]
         (cropRegion \<lparr>ymin = 100, xmin = 900, ymax = 500, xmax = 100\<rparr>
            \<lparr>width = 1000, height = 1000\<rparr>)
       \<in> set (trace (snd (processWineImage demo_E demo_uri st0)))
   \<and> EExtract [65, 65, 65, 65]
         (cropRegion \<lparr>ymin = - 50, xmin = - 20, ymax = 1200, xmax = 1500\<rparr>
            \<lparr>width = 1000, height = 1000\<rparr>)
       \<in> set (trace (snd (processWineImage demo_E demo_uri st0)))"
proof -
  have h1: "invokeLLM demo_E demo_uri (world st0)
              = (Inr (text_response (str ''[b1,b2,b3]'')), 1)"
    by (simp add: demo_E_def demo_env_def st0_def)
  have h2: "choices (text_response (str ''[b1,b2,b3]''))
       = Some [\<lparr>message = Some \<lparr>content = Text (str ''[b1,b2,b3]'')\<rparr>\<rparr>]"
    by (simp add: text_response_def)
  have h3: "first_content [\<lparr>message = Some \<lparr>content = Text (str ''[b1,b2,b3]'')\<rparr>\<rparr>]
       = Text (str ''[b1,b2,b3]'')"
    by (simp add: first_content_def)
  have h4: "str ''[b1,b2,b3]'' \<noteq> []"
    by (simp add: str_def)
  have h5: "JSON_parse demo_E (str ''[b1,b2,b3]'') = Some (JArray demo_boxes)"
    by (simp add: demo_E_def demo_env_def demo_parse_def)
  have b: "base64ToBuffer demo_E demo_uri = Inr [65, 65, 65, 65]"
    unfolding demo_E_def by (rule demo_uri_buffer)
  have g: "getImageDimensions demo_E [65, 65, 65, 65]
             \<lparr>world = 1, trace = trace st0 @ [EInvokeLLM demo_uri]\<rparr>
           = (Inr \<lparr>width = 1000, height = 1000\<rparr>,
              \<lparr>world = 2, trace = [EInvokeLLM demo_uri, EMetadata [65, 65, 65, 65]]\<rparr>)"
    using demo_dims by (simp add: st0_def)
  have r: "processWineImage demo_E demo_uri st0
             = (fst (processWineImage demo_E demo_uri st0),
                snd (processWineImage demo_E demo_uri st0))"
    by simp
  from parsed_array_returned_verbatim [OF h1 h2 h3 h4 h5]
  have det: "detectWineLabels demo_E demo_uri st0
       = (Inr demo_boxes, \<lparr>world = 1, trace = trace st0 @ [EInvokeLLM demo_uri]\<rparr>)"
    and all: "\<And>buf d st2 r st'.
          base64ToBuffer demo_E demo_uri = Inr buf
          \<and> getImageDimensions demo_E buf \<lparr>world = 1, trace = trace st0 @ [EInvokeLLM demo_uri]\<rparr>
              = (Inr d, st2)
          \<and> processWineImage demo_E demo_uri st0 = (r, st')
          \<Longrightarrow> (\<forall>b\<in>set demo_boxes. EExtract buf (cropRegion b d) \<in> set (trace st'))"
    by blast+
  have every: "\<forall>b\<in>set demo_boxes.
         EExtract [65, 65, 65, 65] (cropRegion b \<lparr>width = 1000, height = 1000\<rparr>)
           \<in> set (trace (snd (processWineImage demo_E demo_uri st0)))"
    using b g r by (intro all) blast
  have inverted: "\<lparr>ymin = 100, xmin = 900, ymax = 500, xmax = 100\<rparr> \<in> set demo_boxes"
    and outside: "\<lparr>ymin = - 50, xmin = - 20, ymax = 1200, xmax = 1500\<rparr> \<in> set demo_boxes"
    by (simp_all add: demo_boxes_def)
  show ?thesis
    using h1 h2 h3 h4 h5 det every [rule_format, OF inverted] every [rule_format, OF outside]
    by blast
qed

section \<open>Claims about the dimensions\<close>

text \<open>
  Claim C8. When reading the metadata succeeds, \<^verbatim>\<open>getImageDimensions\<close> succeeds: a
  width or height that the metadata does not have becomes 1000 (as does one that is 0), a
  dimension that is there is kept, and \<^verbatim>\<open>processWineImage\<close> runs its loop over the
  detected boxes with these dimensions.
\<close>

theorem missing_dimensions_fall_back:
  assumes "sharp_metadata env buf (world st1) = (Inr md, w2)"
  shows "\<exists>d st2. getImageDimensions env buf st1 = (Inr d, st2)
     \<and> (width_md md = None \<longrightarrow> width d = 1000)
     \<and> (height_md md = None \<longrightarrow> height d = 1000)
     \<and> (width_md md = Some 0 \<longrightarrow> width d = 1000)
     \<and> (height_md md = Some 0 \<longrightarrow> height d = 1000)
     \<and> (\<forall>n. width_md md = Some n \<and> n \<noteq> 0 \<longrightarrow> width d = n)
     \<and> (\<forall>n. height_md md = Some n \<and> n \<noteq> 0 \<longrightarrow> height d = n)
     \<and> (\<forall>s st boxes. base64ToBuffer env s = Inr buf
            \<and> detectWineLabels env s st = (Inr boxes, st1) \<and> boxes \<noteq> []
          \<longrightarrow> processWineImage env s st =
                (case processLabels env buf d boxes ([], []) st2 of
                   ((cs, bs), st3) \<Rightarrow> (Inr \<lparr>crops = cs, bboxes = bs\<rparr>, st3)))"
proof -
  let ?d = "\<lparr>width = or_default (width_md md) 1000, height = or_default (height_md md) 1000\<rparr>"
  let ?st2 = "\<lparr>world = w2, trace = trace st1 @ [EMetadata buf]\<rparr>"
  have g: "getImageDimensions env buf st1 = (Inr ?d, ?st2)"
    using assms by (simp add: getImageDimensions_def call_def)
  have p: "processWineImage env s st =
                (case processLabels env buf ?d boxes ([], []) ?st2 of
                   ((cs, bs), st3) \<Rightarrow> (Inr \<lparr>crops = cs, bboxes = bs\<rparr>, st3))"
    if "base64ToBuffer env s = Inr buf \<and> detectWineLabels env s st = (Inr boxes, st1)
          \<and> boxes \<noteq> []"
    for s st boxes
    using that g by (intro processWineImage_loop) simp_all
  show ?thesis
  proof (intro exI conjI allI impI)
    show "getImageDimensions env buf st1 = (Inr ?d, ?st2)" by (rule g)
    show "width ?d = 1000" if "width_md md = None"
      using that by (simp add: or_default_def)
    show "height ?d = 1000" if "height_md md = None"
      using that by (simp add: or_default_def)
    show "width ?d = 1000" if "width_md md = Some 0"
      using that by (simp add: or_default_def)
    show "height ?d = 1000" if "height_md md = Some 0"
      using that by (simp add: or_default_def)
    show "width ?d = n" if "width_md md = Some n \<and> n \<noteq> 0" for n
      using that by (simp add: or_default_def)
    show "height ?d = n" if "height_md md = Some n \<and> n \<noteq> 0" for n
      using that by (simp add: or_default_def)
    show "processWineImage env s st =
                (case processLabels env buf ?d boxes ([], []) ?st2 of
                   ((cs, bs), st3) \<Rightarrow> (Inr \<lparr>crops = cs, bboxes = bs\<rparr>, st3))"
      if "base64ToBuffer env s = Inr buf \<and> detectWineLabels env s st = (Inr boxes, st1)
            \<and> boxes \<noteq> []"
      for s st boxes
      using that by (rule p)
  qed
qed

theorem missing_dimensions_fall_back_witness:
  "sharp_metadata demo_E [65, 65, 65, 65] (world \<lparr>world = 1, trace = [EInvokeLLM demo_uri]\<rparr>)
     = (Inr \<lparr>width_md = None, height_md = None\<rparr>, 2)
   \<and> width_md \<lparr>width_md = None, height_md = None\<rparr> = None
   \<and> height_md \<lparr>width_md = None, height_md = None\<rparr> = None
   \<and> base64ToBuffer demo_E demo_uri = Inr [65, 65, 65, 65]
   \<and> detectWineLabels demo_E demo_uri st0
       = (Inr demo_boxes, \<lparr>world = 1, trace = [EInvokeLLM demo_uri]\<rparr>)
   \<and> demo_boxes \<noteq> []
   \<and> (\<exists>d st2. getImageDimensions demo_E [65, 65, 65, 65]
                  \<lparr>world = 1, trace = [EInvokeLLM demo_uri]\<rparr> = (Inr d, st2)
          \<and> width d = 1000 \<and> height d = 1000
          \<and> processWineImage demo_E demo_uri st0 =
                (case processLabels demo_E [65, 65, 65, 65] d demo_boxes ([], []) st2 of
                   ((cs, bs), st3) \<Rightarrow> (Inr \<lparr>crops = cs, bboxes = bs\<rparr>, st3)))
   \<and> sharp_metadata demo_E_text [65, 65, 65, 65] (world st0)
       = (Inr \<lparr>width_md = Some 800, height_md = Some 600\<rparr>, 1)
   \<and> (\<exists>d st2. getImageDimensions demo_E_text [65, 65, 65, 65] st0 = (Inr d, st2)
          \<and> width d = 800 \<and> height d = 600)"
proof -
  have m: "sharp_metadata demo_E [65, 65, 65, 65]
             (world \<lparr>world = 1, trace = [EInvokeLLM demo_uri]\<rparr>)
           = (Inr \<lparr>width_md = None, height_md = None\<rparr>, 2)"
    by (simp add: demo_E_def demo_env_def)
  have b: "base64ToBuffer demo_E demo_uri = Inr [65, 65, 65, 65]"
    unfolding demo_E_def by (rule demo_uri_buffer)
  have ne: "demo_boxes \<noteq> []" by (simp add: demo_boxes_def)
  have m2: "sharp_metadata demo_E_text [65, 65, 65, 65] (world st0)
       = (Inr \<lparr>width_md = Some 800, height_md = Some 600\<rparr>, 1)"
    by (simp add: demo_E_text_def demo_env_def st0_def)
  have first: "\<exists>d st2. getImageDimensions demo_E [65, 65, 65, 65]
                  \<lparr>world = 1, trace = [EInvokeLLM demo_uri]\<rparr> = (Inr d, st2)
          \<and> width d = 1000 \<and> height d = 1000
          \<and> processWineImage demo_E demo_uri st0 =
                (case processLabels demo_E [65, 65, 65, 65] d demo_boxes ([], []) st2 of
                   ((cs, bs), st3) \<Rightarrow> (Inr \<lparr>crops = cs, bboxes = bs\<rparr>, st3))"
    using missing_dimensions_fall_back [OF m] b demo_detect ne by fastforce
  have second: "\<exists>d st2. getImageDimensions demo_E_text [65, 65, 65, 65] st0 = (Inr d, st2)
          \<and> width d = 800 \<and> height d = 600"
    using missing_dimensions_fall_back [OF m2] by fastforce
  show ?thesis
    using m b demo_detect ne m2 first second by simp
qed

section \<open>Claims about the loop over the boxes\<close>

text \<open>
  Claim C2. The input is well formed, the detector returns \<open>N > 0\<close> boxes and the
  dimensions are read. Box \<open>k\<close> is the one box whose crop or store step fails:
  \<^verbatim>\<open>extract\<close> or \<^verbatim>\<open>storagePut\<close> returns an error for it, and for every other box
  both succeed. Then \<^verbatim>\<open>processWineImage\<close> returns a result, not an error; \<open>crops\<close> and
  \<open>bboxes\<close> have \<open>N - 1\<close> entries each; \<open>bboxes\<close> is the detector's sequence of
  boxes without box \<open>k\<close>, in order; \<open>crops[i].bbox = bboxes[i]\<close> for every index;
  the entries of \<open>crops\<close> carry the identifiers and URLs that \<^verbatim>\<open>nanoid\<close> and
  \<^verbatim>\<open>storagePut\<close> returned for the boxes that succeeded; and the call logs one failed
  label.
\<close>

theorem label_failure_skipped:
  assumes "base64ToBuffer env s = Inr buf"
      and "detectWineLabels env s st = (Inr boxes, st1)"
      and "boxes \<noteq> []"
      and "getImageDimensions env buf st1 = (Inr d, st2)"
      and "k < length boxes"
      and "stepOutcomes env buf d boxes (world st2) ! k = Inl e"
      and "\<forall>j<length boxes. j \<noteq> k \<longrightarrow> (\<exists>c. stepOutcomes env buf d boxes (world st2) ! j = Inr c)"
  shows "\<exists>r st'. processWineImage env s st = (Inr r, st')
          \<and> length (crops r) = length boxes - 1
          \<and> length (bboxes r) = length boxes - 1
          \<and> bboxes r = map bbox_of (take k boxes @ drop (Suc k) boxes)
          \<and> (\<forall>i<length (crops r). bbox (crops r ! i) = bboxes r ! i)
          \<and> crops r = keptCrops boxes (stepOutcomes env buf d boxes (world st2))
          \<and> labelFailures (trace st') = Suc (labelFailures (trace st))"
proof -
  let ?outs = "stepOutcomes env buf d boxes (world st2)"
  obtain cs bs st3 where loop: "processLabels env buf d boxes ([], []) st2 = ((cs, bs), st3)"
    by (metis prod.exhaust)
  have res: "processWineImage env s st = (Inr \<lparr>crops = cs, bboxes = bs\<rparr>, st3)"
    using processWineImage_loop [OF assms(1-4)] loop by simp
  have f2: "labelFailures (trace st2) = labelFailures (trace st)"
    using detect_labelFailures [OF assms(2)] dims_labelFailures [OF assms(4)] by simp
  from processLabels_outcomes [OF loop]
  have cs: "cs = keptCrops boxes ?outs" and bs: "bs = map bbox cs"
    and fl: "labelFailures (trace st3) = labelFailures (trace st2) + length (filter isl ?outs)"
    by simp_all
  have len: "length ?outs = length boxes" by (rule length_stepOutcomes)
  have bsk: "bs = map bbox_of (take k boxes @ drop (Suc k) boxes)"
    using keptCrops_one_failure [OF len assms(5,6,7)] cs bs by simp
  have lb: "length bs = length boxes - 1"
    using assms(5) by (simp add: bsk)
  have lc: "length cs = length boxes - 1"
    using lb bs by simp
  have nth: "\<forall>i<length cs. bbox (cs ! i) = bs ! i" using bs by simp
  have one: "length (filter isl ?outs) = 1"
    using filter_isl_one_failure [OF len assms(5,6,7)] .
  have fl': "labelFailures (trace st3) = Suc (labelFailures (trace st))"
    using fl f2 one by simp
  show ?thesis
    using res lc lb bsk nth cs fl' by simp
qed

theorem label_failure_skipped_witness:
  "base64ToBuffer demo_E demo_uri = Inr [65, 65, 65, 65]
   \<and> detectWineLabels demo_E demo_uri st0
       = (Inr demo_boxes, \<lparr>world = 1, trace = [EInvokeLLM demo_uri]\<rparr>)
   \<and> demo_boxes \<noteq> [] \<and> length demo_boxes = 3
   \<and> getImageDimensions demo_E [65, 65, 65, 65] \<lparr>world = 1, trace = [EInvokeLLM demo_uri]\<rparr>
       = (Inr \<lparr>width = 1000, height = 1000\<rparr>,
          \<lparr>world = 2, trace = [EInvokeLLM demo_uri, EMetadata [65, 65, 65, 65]]\<rparr>)
   \<and> stepOutcomes demo_E [65, 65, 65, 65] \<lparr>width = 1000, height = 1000\<rparr> demo_boxes 2
     = [Inr ([3], str ''https://cdn/wine-crops/'' @ [3] @ str ''.png''),
        Inl (Error ''extract_area: bad extract area''),
        Inr ([7], str ''https://cdn/wine-crops/'' @ [7] @ str ''.png'')]
   \<and> (\<exists>r st'. processWineImage demo_E demo_uri st0 = (Inr r, st')
          \<and> length (crops r) = 2 \<and> length (bboxes r) = 2
          \<and> bboxes r = [(100, 200, 500, 700), (- 50, - 20, 1200, 1500)]
          \<and> (\<forall>i<length (crops r). bbox (crops r ! i) = bboxes r ! i)
          \<and> labelFailures (trace st') = Suc (labelFailures (trace st0)))"
proof -
  let ?st2 = "\<lparr>world = 2, trace = [EInvokeLLM demo_uri, EMetadata [65, 65, 65, 65]]\<rparr> :: nat state"
  let ?outs = "stepOutcomes demo_E [65, 65, 65, 65] \<lparr>width = 1000, height = 1000\<rparr> demo_boxes
                 (world ?st2)"
  have b: "base64ToBuffer demo_E demo_uri = Inr [65, 65, 65, 65]"
    unfolding demo_E_def by (rule demo_uri_buffer)
  have ne: "demo_boxes \<noteq> []" and n: "length demo_boxes = 3"
    by (simp_all add: demo_boxes_def)
  have outs: "?outs = [Inr ([3], str ''https://cdn/wine-crops/'' @ [3] @ str ''.png''),
        Inl (Error ''extract_area: bad extract area''),
        Inr ([7], str ''https://cdn/wine-crops/'' @ [7] @ str ''.png'')]"
    using demo_outcomes by simp
  have k: "1 < length demo_boxes" using n by simp
  have fail: "?outs ! 1 = Inl (Error ''extract_area: bad extract area'')"
    by (simp only: outs) simp
  have others: "\<forall>j<length demo_boxes. j \<noteq> 1 \<longrightarrow> (\<exists>c. ?outs ! j = Inr c)"
  proof (intro allI impI)
    fix j assume "j < length demo_boxes" "j \<noteq> 1"
    then have "j = 0 \<or> j = 2" using n by auto
    then show "\<exists>c. ?outs ! j = Inr c" by (auto simp only: outs) simp_all
  qed
  have kept: "map bbox_of (take 1 demo_boxes @ drop (Suc 1) demo_boxes)
                = [(100, 200, 500, 700), (- 50, - 20, 1200, 1500)]"
    by (simp add: demo_boxes_def bbox_of_def)
  from label_failure_skipped [OF b demo_detect ne demo_dims k fail others]
  obtain r st' where run: "processWineImage demo_E demo_uri st0 = (Inr r, st')"
    and lc: "length (crops r) = length demo_boxes - 1"
    and lb: "length (bboxes r) = length demo_boxes - 1"
    and bb: "bboxes r = map bbox_of (take 1 demo_boxes @ drop (Suc 1) demo_boxes)"
    and al: "\<forall>i<length (crops r). bbox (crops r ! i) = bboxes r ! i"
    and f: "labelFailures (trace st') = Suc (labelFailures (trace st0))"
    by blast
  have "length (crops r) = 2" "length (bboxes r) = 2"
    using lc lb n by simp_all
  moreover have "bboxes r = [(100, 200, 500, 700), (- 50, - 20, 1200, 1500)]"
    using bb kept by simp
  ultimately show ?thesis
    using b demo_detect ne n demo_dims demo_outcomes run al f by blast
qed

end
